theory Spec2Isabelle
  imports Main
begin

section \<open>mdmindmap: the link-graph walker of \<open>src/mdmindmap/core.py\<close>\<close>

text \<open>
  The walker reads markdown files, splits off their frontmatter, follows their inline
  links and builds a tree of nodes. This theory embeds \<open>core.py\<close> function by function.

  Conventions of the embedding.
  \<^item> A Python \<open>str\<close> is a \<open>string\<close>; a character is a code point below 256.
  \<^item> What the program takes from outside is a parameter: the library calls
    (\<open>urlparse\<close>, \<open>unquote\<close>, \<open>yaml.safe_load\<close>, \<open>markdown.markdown\<close>, \<open>str\<close> of a
    non-string object) are the fields of a record \<open>pylib\<close>, the file system is a record
    \<open>filesystem\<close>. Theorems hold for every library and every file system.
  \<^item> \<open>os.path\<close> is the POSIX one (\<open>posixpath\<close>), written out, and the two regular
    expressions of \<open>core.py\<close> are written out as matchers.
  \<^item> An exception is a value \<open>Inl e\<close>; a Python \<open>None\<close> result is \<open>None\<close> of an
    option type.
\<close>

subsection \<open>Text\<close>

type_synonym path = string

text \<open>The characters below 256 for which \<open>str.isspace\<close> holds; the regular expression
  class \<open>\s\<close> matches the same characters.\<close>

definition whitespace :: "char list" where
  "whitespace =
     [CHR 0x09, CHR 0x0A, CHR 0x0B, CHR 0x0C, CHR 0x0D, CHR 0x1C, CHR 0x1D, CHR 0x1E,
      CHR 0x1F, CHR 0x20, CHR 0x85, CHR 0xA0]"

definition is_space :: "char \<Rightarrow> bool" where
  "is_space c = (c \<in> set whitespace)"

text \<open>\<open>str.lower\<close>: the upper-case letters below 256 and their lower-case forms.\<close>

definition upper_letters :: "char list" where
  "upper_letters = ''ABCDEFGHIJKLMNOPQRSTUVWXYZ'' @
     [CHR 0xC0, CHR 0xC1, CHR 0xC2, CHR 0xC3, CHR 0xC4, CHR 0xC5, CHR 0xC6, CHR 0xC7,
      CHR 0xC8, CHR 0xC9, CHR 0xCA, CHR 0xCB, CHR 0xCC, CHR 0xCD, CHR 0xCE, CHR 0xCF,
      CHR 0xD0, CHR 0xD1, CHR 0xD2, CHR 0xD3, CHR 0xD4, CHR 0xD5, CHR 0xD6,
      CHR 0xD8, CHR 0xD9, CHR 0xDA, CHR 0xDB, CHR 0xDC, CHR 0xDD, CHR 0xDE]"

definition lower_letters :: "char list" where
  "lower_letters = ''abcdefghijklmnopqrstuvwxyz'' @
     [CHR 0xE0, CHR 0xE1, CHR 0xE2, CHR 0xE3, CHR 0xE4, CHR 0xE5, CHR 0xE6, CHR 0xE7,
      CHR 0xE8, CHR 0xE9, CHR 0xEA, CHR 0xEB, CHR 0xEC, CHR 0xED, CHR 0xEE, CHR 0xEF,
      CHR 0xF0, CHR 0xF1, CHR 0xF2, CHR 0xF3, CHR 0xF4, CHR 0xF5, CHR 0xF6,
      CHR 0xF8, CHR 0xF9, CHR 0xFA, CHR 0xFB, CHR 0xFC, CHR 0xFD, CHR 0xFE]"

definition lower_char :: "char \<Rightarrow> char" where
  "lower_char c = (case map_of (zip upper_letters lower_letters) c of Some d \<Rightarrow> d | None \<Rightarrow> c)"

definition lower :: "string \<Rightarrow> string" where
  "lower s = map lower_char s"

text \<open>\<open>s.strip()\<close>, \<open>s.startswith(p)\<close>, \<open>s.endswith(p)\<close>, \<open>s.split(c)\<close> and
  \<open>sep.join(parts)\<close>.\<close>

definition strip :: "string \<Rightarrow> string" where
  "strip s = rev (dropWhile is_space (rev (dropWhile is_space s)))"

definition startswith :: "string \<Rightarrow> string \<Rightarrow> bool" where
  "startswith s p = (take (length p) s = p)"

definition endswith :: "string \<Rightarrow> string \<Rightarrow> bool" where
  "endswith s p = (length p \<le> length s \<and> drop (length s - length p) s = p)"

fun split_on :: "char \<Rightarrow> string \<Rightarrow> string list" where
  "split_on c [] = [[]]"
| "split_on c (x # xs) =
     (if x = c then [] # split_on c xs
      else (case split_on c xs of [] \<Rightarrow> [[x]] | w # ws \<Rightarrow> (x # w) # ws))"

fun join_with :: "string \<Rightarrow> string list \<Rightarrow> string" where
  "join_with sep [] = []"
| "join_with sep [w] = w"
| "join_with sep (w # ws) = w @ sep @ join_with sep ws"

text \<open>The \<open>or\<close> of two strings: the first one unless it is empty.\<close>

definition py_or :: "string \<Rightarrow> string \<Rightarrow> string" where
  "py_or a b = (if a \<noteq> [] then a else b)"

subsection \<open>Paths: \<open>os.path\<close> on POSIX and \<open>pathlib\<close>'s stem\<close>

text \<open>\<open>head_part p\<close> is \<open>p[:i]\<close> and \<open>basename p\<close> is \<open>p[i:]\<close> for
  \<open>i = p.rfind('/') + 1\<close>.\<close>

definition head_part :: "path \<Rightarrow> string" where
  "head_part p = rev (dropWhile (\<lambda>c. c \<noteq> CHR ''/'') (rev p))"

definition basename :: "path \<Rightarrow> string" where
  "basename p = rev (takeWhile (\<lambda>c. c \<noteq> CHR ''/'') (rev p))"

definition dirname :: "path \<Rightarrow> string" where
  "dirname p =
     (let head = head_part p
      in if head \<noteq> [] \<and> head \<noteq> replicate (length head) CHR ''/''
         then rev (dropWhile (\<lambda>c. c = CHR ''/'') (rev head))
         else head)"

definition join :: "path \<Rightarrow> string \<Rightarrow> path" where
  "join a b =
     (if startswith b ''/'' then b
      else if a = [] \<or> endswith a ''/'' then a @ b
      else a @ ''/'' @ b)"

text \<open>The loop of \<open>normpath\<close> over the components: empty ones and \<open>.\<close> are dropped,
  \<open>..\<close> removes the component before it where there is one to remove.\<close>

fun norm_comps :: "bool \<Rightarrow> string list \<Rightarrow> string list \<Rightarrow> string list" where
  "norm_comps initial [] new_comps = new_comps"
| "norm_comps initial (cp # comps) new_comps =
     (if cp = [] \<or> cp = ''.'' then norm_comps initial comps new_comps
      else if cp \<noteq> ''..'' \<or> (\<not> initial \<and> new_comps = []) \<or>
              (new_comps \<noteq> [] \<and> last new_comps = ''..'')
        then norm_comps initial comps (new_comps @ [cp])
      else if new_comps \<noteq> [] then norm_comps initial comps (butlast new_comps)
      else norm_comps initial comps new_comps)"

definition normpath :: "path \<Rightarrow> path" where
  "normpath p =
     (if p = [] then ''.''
      else
        let initial_slashes =
              (if startswith p ''/''
               then (if startswith p ''//'' \<and> \<not> startswith p ''///'' then 2 else 1)
               else (0::nat));
            comps = norm_comps (initial_slashes \<noteq> 0) (split_on CHR ''/'' p) [];
            q = replicate initial_slashes CHR ''/'' @ join_with ''/'' comps
        in if q = [] then ''.'' else q)"

text \<open>\<open>os.path.abspath\<close>; the first argument is the current directory.\<close>

definition abspath :: "path \<Rightarrow> path \<Rightarrow> path" where
  "abspath cwd p = normpath (if startswith p ''/'' then p else join cwd p)"

text \<open>\<open>os.path.splitext\<close>: the extension starts at the last dot of the last component,
  leading dots of that component apart.\<close>

definition ext_of_name :: "string \<Rightarrow> string" where
  "ext_of_name name =
     (let undotted = dropWhile (\<lambda>c. c = CHR ''.'') name
      in if CHR ''.'' \<in> set undotted
         then CHR ''.'' # rev (takeWhile (\<lambda>c. c \<noteq> CHR ''.'') (rev undotted))
         else [])"

definition splitext :: "path \<Rightarrow> string \<times> string" where
  "splitext p = (let e = ext_of_name (basename p) in (take (length p - length e) p, e))"

text \<open>\<open>pathlib.Path(p).stem\<close> of a normalised path: the last component without its
  suffix, where a suffix starts at a dot that is neither the first nor the last character.\<close>

definition stem :: "path \<Rightarrow> string" where
  "stem p =
     (let name = basename p;
          suffix = rev (takeWhile (\<lambda>c. c \<noteq> CHR ''.'') (rev name))
      in if CHR ''.'' \<in> set name \<and> suffix \<noteq> [] \<and> length suffix + 1 < length name
         then take (length name - length suffix - 1) name
         else name)"

subsection \<open>Python values, the library and the file system\<close>

datatype error = ValueError | AttributeError

text \<open>What \<open>yaml.safe_load\<close> can return. \<open>PyOther t s\<close> is any other object (a float, a
  date, bytes, a set) with its truth value \<open>t\<close> and its \<open>str()\<close> \<open>s\<close>.\<close>

datatype pyval =
    PyNone
  | PyBool bool
  | PyInt int
  | PyStr string
  | PyList "pyval list"
  | PyDict "(pyval \<times> pyval) list"
  | PyOther bool string

fun truthy :: "pyval \<Rightarrow> bool" where
  "truthy PyNone = False"
| "truthy (PyBool b) = b"
| "truthy (PyInt i) = (i \<noteq> 0)"
| "truthy (PyStr s) = (s \<noteq> [])"
| "truthy (PyList xs) = (xs \<noteq> [])"
| "truthy (PyDict kvs) = (kvs \<noteq> [])"
| "truthy (PyOther t s) = t"

text \<open>The fields of \<open>urlparse\<close>'s result that \<open>core.py\<close> reads.\<close>

record url =
  scheme :: string
  netloc :: string
  url_path :: string

text \<open>The library. \<open>urlparse\<close> raises \<open>ValueError\<close> on some inputs (an unbalanced
  bracket in the network location); \<open>yaml_safe_load\<close> is \<open>None\<close> where \<open>yaml.safe_load\<close>
  raises; \<open>repr_str\<close> is \<open>str()\<close> of an object that is not a string.\<close>

record pylib =
  urlparse :: "string \<Rightarrow> error + url"
  unquote :: "string \<Rightarrow> string"
  yaml_safe_load :: "string \<Rightarrow> pyval option"
  markdown :: "string \<Rightarrow> string"
  repr_str :: "pyval \<Rightarrow> string"

text \<open>The file system: \<open>os.getcwd\<close>, \<open>os.path.exists\<close>, \<open>os.path.isdir\<close>,
  \<open>os.listdir\<close> (\<open>None\<close> where it raises \<open>PermissionError\<close>),
  \<open>pathlib.Path(p).resolve()\<close>, and the files that \<open>open(p, encoding="utf-8").read()\<close>
  reads, each with its text. A file system holds finitely many files, so they are a list.\<close>

record filesystem =
  fs_cwd :: path
  fs_exists :: "path \<Rightarrow> bool"
  fs_isdir :: "path \<Rightarrow> bool"
  fs_listdir :: "path \<Rightarrow> string list option"
  fs_resolve :: "path \<Rightarrow> path"
  fs_files :: "(path \<times> string) list"

definition MD_EXTS :: "string list" where
  "MD_EXTS = [''.md'', ''.markdown'', ''.mdx'']"

subsection \<open>\<open>parse_frontmatter\<close>\<close>

text \<open>The pattern is \<^verbatim>\<open>^---\s*\n(.*?)\n---\s*\n(.*)$\<close> with \<open>DOTALL\<close>, matched at the start
  of the text.

  \<open>ws_newline s\<close> matches \<^verbatim>\<open>\s*\n\<close> at the head of \<open>s\<close> where whatever follows matches:
  the greedy \<^verbatim>\<open>\s*\<close> stops before the last line feed of the leading white space. The
  result is the rest of \<open>s\<close>.\<close>

definition ws_newline :: "string \<Rightarrow> string option" where
  "ws_newline s =
     (let w = takeWhile is_space s
      in if CHR 0x0A \<in> set w
         then Some (rev (takeWhile (\<lambda>c. c \<noteq> CHR 0x0A) (rev w)) @ dropWhile is_space s)
         else None)"

text \<open>\<open>close_here s\<close> matches \<^verbatim>\<open>\n---\s*\n(.*)$\<close> at the head of \<open>s\<close>; the result is the
  last group. \<open>find_close s\<close> matches \<^verbatim>\<open>(.*?)\n---\s*\n(.*)$\<close> at the head of \<open>s\<close>: the
  lazy group grows one character at a time until a closing delimiter line follows. The
  result is the two groups.\<close>

definition close_here :: "string \<Rightarrow> string option" where
  "close_here s = (if startswith s ''\<newline>---'' then ws_newline (drop 4 s) else None)"

fun find_close :: "string \<Rightarrow> (string \<times> string) option" where
  "find_close [] = None"
| "find_close (c # cs) =
     (case close_here (c # cs) of
        Some body \<Rightarrow> Some ([], body)
      | None \<Rightarrow> map_option (\<lambda>(g, b). (c # g, b)) (find_close cs))"

text \<open>The ways in which \<^verbatim>\<open>\s*\n\<close> matches at the head of \<open>s\<close>, each given by the rest of
  \<open>s\<close>, shortest match first.\<close>

fun open_alternatives :: "string \<Rightarrow> string list" where
  "open_alternatives [] = []"
| "open_alternatives (c # cs) =
     (if is_space c then (if c = CHR 0x0A then [cs] else []) @ open_alternatives cs else [])"

fun first_some :: "('a \<Rightarrow> 'b option) \<Rightarrow> 'a list \<Rightarrow> 'b option" where
  "first_some f [] = None"
| "first_some f (x # xs) = (case f x of Some y \<Rightarrow> Some y | None \<Rightarrow> first_some f xs)"

text \<open>\<open>re.match\<close> of the pattern: the opening \<^verbatim>\<open>\s*\<close> is greedy, so its longest match
  is tried first, and a shorter one only where the rest of the pattern fails.\<close>

definition match_frontmatter :: "string \<Rightarrow> (string \<times> string) option" where
  "match_frontmatter text =
     (if startswith text ''---''
      then first_some find_close (rev (open_alternatives (drop 3 text)))
      else None)"

text \<open>\<open>parse_frontmatter\<close>: \<open>yaml.safe_load(fm_text) or {}\<close> inside \<open>try\<close>, with \<open>{}\<close> for
  every exception.\<close>

definition parse_frontmatter :: "pylib \<Rightarrow> string \<Rightarrow> pyval \<times> string" where
  "parse_frontmatter L text =
     (case match_frontmatter text of
        Some (fm_text, body) \<Rightarrow>
          (case yaml_safe_load L fm_text of
             Some v \<Rightarrow> (if truthy v then v else PyDict [], body)
           | None \<Rightarrow> (PyDict [], body))
      | None \<Rightarrow> (PyDict [], text))"

subsection \<open>\<open>extract_links\<close>\<close>

text \<open>\<open>LINK_RE\<close> is \<^verbatim>\<open>\[([^\]]+)\]\(([^)]+)\)\<close>. \<open>match_link s\<close> matches it at the head of
  \<open>s\<close>: the label runs to the first \<open>]\<close>, the target to the first \<open>)\<close>, neither is empty.
  The result is the two groups and the text after the match.\<close>

definition match_link :: "string \<Rightarrow> ((string \<times> string) \<times> string) option" where
  "match_link s =
     (case s of
        [] \<Rightarrow> None
      | c # r \<Rightarrow>
          if c \<noteq> CHR ''['' then None
          else
            let label = takeWhile (\<lambda>x. x \<noteq> CHR '']'') r;
                r1 = dropWhile (\<lambda>x. x \<noteq> CHR '']'') r
            in if label = [] \<or> \<not> startswith r1 '']('' then None
               else
                 let r2 = drop 2 r1;
                     target = takeWhile (\<lambda>x. x \<noteq> CHR '')'') r2;
                     r3 = dropWhile (\<lambda>x. x \<noteq> CHR '')'') r2
                 in if target = [] \<or> r3 = [] then None
                    else Some ((label, target), tl r3))"

text \<open>\<open>LINK_RE.finditer\<close>: the matches from left to right, none overlapping another.\<close>

function extract_links :: "string \<Rightarrow> (string \<times> string) list" where
  "extract_links s =
     (if s = [] then []
      else (case match_link s of
              Some (lt, rest) \<Rightarrow> lt # extract_links rest
            | None \<Rightarrow> extract_links (tl s)))"
  by pat_completeness auto
termination
proof (relation "measure length")
  fix s :: string and x2 :: "(string \<times> string) \<times> string" and lt rest
  assume m: "match_link s = Some x2" and x2: "(lt, rest) = x2"
  from m obtain c r where s: "s = c # r"
    by (cases s) (auto simp: match_link_def)
  define r1 where "r1 = dropWhile (\<lambda>x. x \<noteq> CHR '']'') r"
  define r3 where "r3 = dropWhile (\<lambda>x. x \<noteq> CHR '')'') (drop 2 r1)"
  from m s x2 have "rest = tl r3" and "r3 \<noteq> []"
    by (auto simp: match_link_def Let_def r1_def r3_def split: if_splits)
  moreover have "length r3 \<le> length r"
    using length_dropWhile_le [of "\<lambda>x. x \<noteq> CHR '')''" "drop 2 r1"]
      length_dropWhile_le [of "\<lambda>x. x \<noteq> CHR '']''" r]
    by (simp add: r1_def r3_def)
  ultimately have "length rest < length s"
    using s by (cases r3) auto
  then show "(rest, s) \<in> measure length" by simp
qed auto

subsection \<open>\<open>_case_insensitive_existing\<close> and \<open>resolve_link\<close>\<close>

text \<open>The loop over the directory listing: the first entry that equals the base name up
  to case and exists.\<close>

fun first_match :: "filesystem \<Rightarrow> path \<Rightarrow> string \<Rightarrow> string list \<Rightarrow> path option" where
  "first_match fs d b [] = None"
| "first_match fs d b (entry # entries) =
     (if lower entry = lower b \<and> fs_exists fs (join d entry)
      then Some (abspath (fs_cwd fs) (join d entry))
      else first_match fs d b entries)"

text \<open>\<open>_case_insensitive_existing\<close> (an Isabelle name cannot start with an underscore).\<close>

definition case_insensitive_existing :: "filesystem \<Rightarrow> path \<Rightarrow> path option" where
  "case_insensitive_existing fs p =
     (if fs_exists fs p then Some (abspath (fs_cwd fs) p)
      else
        let d = dirname p; b = basename p
        in if \<not> fs_isdir fs d then None
           else (case fs_listdir fs d of
                   None \<Rightarrow> None
                 | Some entries \<Rightarrow> first_match fs d b entries))"

text \<open>The list \<open>candidates\<close> that \<open>resolve_link\<close> builds from \<open>raw_abs\<close>; \<open>os.sep\<close> is
  \<open>/\<close>.\<close>

definition candidates :: "filesystem \<Rightarrow> path \<Rightarrow> path list" where
  "candidates fs raw_abs =
     [raw_abs]
     @ (if snd (splitext raw_abs) = [] then map (\<lambda>e. raw_abs @ e) MD_EXTS else [])
     @ (if fs_isdir fs raw_abs \<or> endswith raw_abs ''/''
        then map (\<lambda>e. join raw_abs (''index'' @ e)) MD_EXTS else [])"

text \<open>The loop \<open>for c in candidates\<close>.\<close>

fun first_hit :: "filesystem \<Rightarrow> path list \<Rightarrow> path option" where
  "first_hit fs [] = None"
| "first_hit fs (c # cs) =
     (case case_insensitive_existing fs c of
        Some hit \<Rightarrow>
          if hit \<noteq> [] \<and> lower (snd (splitext hit)) \<in> set MD_EXTS
          then Some (abspath (fs_cwd fs) hit)
          else first_hit fs cs
      | None \<Rightarrow> first_hit fs cs)"

definition resolve_link :: "pylib \<Rightarrow> filesystem \<Rightarrow> path \<Rightarrow> string \<Rightarrow> error + path option" where
  "resolve_link L fs base_file link =
     (case urlparse L link of
        Inl e \<Rightarrow> Inl e
      | Inr p \<Rightarrow>
          if scheme p \<noteq> [] \<and> netloc p \<noteq> [] then Inr None
          else
            let raw_rel = strip (unquote L (url_path p))
            in if raw_rel = [] then Inr None
               else
                 let base_dir = dirname base_file;
                     raw_abs = abspath (fs_cwd fs) (join base_dir raw_rel)
                 in Inr (first_hit fs (candidates fs raw_abs)))"

definition is_external_link :: "pylib \<Rightarrow> string \<Rightarrow> error + bool" where
  "is_external_link L link =
     (case urlparse L link of
        Inl e \<Rightarrow> Inl e
      | Inr p \<Rightarrow> Inr (scheme p \<noteq> [] \<and> netloc p \<noteq> []))"

subsection \<open>\<open>parse_md\<close>\<close>

text \<open>\<open>_read_file_text\<close>: \<open>None\<close> for every exception of \<open>open\<close> and \<open>read\<close>.\<close>

definition read_file_text :: "filesystem \<Rightarrow> path \<Rightarrow> string option" where
  "read_file_text fs p = map_of (fs_files fs) p"

text \<open>A node is the dict with the keys \<open>id\<close>, \<open>title\<close>, \<open>content\<close> and \<open>children\<close>.\<close>

datatype node = Node (node_id: string) (title: string) (content: string) (children: "node list")

text \<open>\<open>str(v)\<close>.\<close>

definition py_str :: "pylib \<Rightarrow> pyval \<Rightarrow> string" where
  "py_str L v = (case v of PyStr s \<Rightarrow> s | _ \<Rightarrow> repr_str L v)"

text \<open>\<open>(fm or {}).get("title")\<close>: only a dict has \<open>get\<close>, so a frontmatter that is
  another (true) value raises \<open>AttributeError\<close>; a missing key gives \<open>None\<close>.\<close>

definition fm_get_title :: "pyval \<Rightarrow> error + pyval" where
  "fm_get_title fm =
     (if \<not> truthy fm then Inr PyNone
      else (case fm of
              PyDict kvs \<Rightarrow>
                Inr (case map_of kvs (PyStr ''title'') of Some v \<Rightarrow> v | None \<Rightarrow> PyNone)
            | _ \<Rightarrow> Inl AttributeError))"

text \<open>The \<open>if fm_title: ... elif link_text: ... else: ...\<close> of \<open>parse_md\<close>.\<close>

definition node_title :: "pylib \<Rightarrow> pyval \<Rightarrow> string option \<Rightarrow> path \<Rightarrow> string" where
  "node_title L fm_title link_text p =
     (if truthy fm_title then py_str L fm_title
      else (case link_text of
              Some l \<Rightarrow> if l \<noteq> [] then l else stem p
            | None \<Rightarrow> stem p))"

text \<open>The three placeholder children.\<close>

definition external_node :: "string \<Rightarrow> string \<Rightarrow> node" where
  "external_node link_label link_target =
     Node link_target (py_or link_label link_target)
       (''<i>External link: '' @ link_target @ ''</i>'') []"

definition could_not_load_node :: "string \<Rightarrow> path \<Rightarrow> node" where
  "could_not_load_node link_label resolved =
     Node resolved (py_or link_label (stem resolved)) ''<i>Could not load</i>'' []"

definition unresolved_node :: "string \<Rightarrow> string \<Rightarrow> node" where
  "unresolved_node link_label link_target =
     Node link_target (py_or link_label link_target)
       (''<i>Unresolved link: '' @ link_target @ ''</i>'') []"

text \<open>\<open>if resolved:\<close> holds for a path that is not empty.\<close>

definition truthy_path :: "path option \<Rightarrow> path option" where
  "truthy_path resolved = (case resolved of None \<Rightarrow> None | Some r \<Rightarrow> if r \<noteq> [] then Some r else None)"

text \<open>The result of a call that threads the set \<open>seen\<close>: \<open>None\<close> when the fuel ran out,
  \<open>Some (Inl e)\<close> when the exception \<open>e\<close> was raised, \<open>Some (Inr (v, seen'))\<close> when the call
  returned \<open>v\<close> and left the set \<open>seen'\<close>.\<close>

type_synonym 'a outcome = "(error + 'a \<times> path set) option"

text \<open>\<open>node["children"].append(c)\<close>, followed by the rest of the loop.\<close>

definition append_child :: "node \<Rightarrow> (node list) outcome \<Rightarrow> (node list) outcome" where
  "append_child c r =
     (case r of
        None \<Rightarrow> None
      | Some (Inl e) \<Rightarrow> Some (Inl e)
      | Some (Inr (cs, seen')) \<Rightarrow> Some (Inr (c # cs, seen')))"

text \<open>\<open>parse_md\<close> and its loop over the links, \<open>walk_links\<close>. The recursion of \<open>parse_md\<close>
  follows the links of the files, which may form a cycle, so the functions take fuel: the
  number of nested calls of \<open>parse_md\<close> they may make. The set \<open>seen\<close>, which the Python
  code updates in place, is passed in and returned. Python's own limit on the depth of
  recursion is not modelled.\<close>

fun parse_md :: "nat \<Rightarrow> pylib \<Rightarrow> filesystem \<Rightarrow> path \<Rightarrow> path set \<Rightarrow> string option \<Rightarrow> (node option) outcome"
and walk_links :: "nat \<Rightarrow> pylib \<Rightarrow> filesystem \<Rightarrow> path \<Rightarrow> (string \<times> string) list \<Rightarrow> path set \<Rightarrow> (node list) outcome"
where
  "parse_md 0 L fs path0 seen link_text = None"
| "parse_md (Suc n) L fs path0 seen link_text =
     (let p = fs_resolve fs path0 in
      case read_file_text fs p of
        None \<Rightarrow> Some (Inr (None, seen))
      | Some text \<Rightarrow>
          (case parse_frontmatter L text of
             (fm, body) \<Rightarrow>
               (case fm_get_title fm of
                  Inl e \<Rightarrow> Some (Inl e)
                | Inr fm_title \<Rightarrow>
                    let t = node_title L fm_title link_text p;
                        html_preview = markdown L body
                    in if p \<in> seen then Some (Inr (Some (Node p t html_preview []), seen))
                       else (case walk_links n L fs p (extract_links body) (insert p seen) of
                               None \<Rightarrow> None
                             | Some (Inl e) \<Rightarrow> Some (Inl e)
                             | Some (Inr (cs, seen')) \<Rightarrow>
                                 Some (Inr (Some (Node p t html_preview cs), seen'))))))"
| "walk_links n L fs p [] seen = Some (Inr ([], seen))"
| "walk_links n L fs p ((link_label, link_target) # rest) seen =
     (case is_external_link L link_target of
        Inl e \<Rightarrow> Some (Inl e)
      | Inr True \<Rightarrow>
          append_child (external_node link_label link_target) (walk_links n L fs p rest seen)
      | Inr False \<Rightarrow>
          (case resolve_link L fs p link_target of
             Inl e \<Rightarrow> Some (Inl e)
           | Inr resolved \<Rightarrow>
               (case truthy_path resolved of
                  Some r \<Rightarrow>
                    (case parse_md n L fs r seen (Some link_label) of
                       None \<Rightarrow> None
                     | Some (Inl e) \<Rightarrow> Some (Inl e)
                     | Some (Inr (child, seen1)) \<Rightarrow>
                         append_child
                           (case child of Some c \<Rightarrow> c | None \<Rightarrow> could_not_load_node link_label r)
                           (walk_links n L fs p rest seen1))
                | None \<Rightarrow>
                    append_child (unresolved_node link_label link_target)
                      (walk_links n L fs p rest seen))))"

subsection \<open>The cache: \<open>json.dump\<close> and \<open>json.load\<close> in \<open>cli.py\<close>\<close>

text \<open>\<open>main\<close> writes the tree with \<open>json.dump(data, fh)\<close> and a later run reads it with
  \<open>json.load(fh)\<close>. The \<open>json\<close> module is modelled on JSON values, after its conversion
  table: a dict is written as an object, a list as an array, a str as a string, an int as a
  number, \<open>True\<close>, \<open>False\<close> and \<open>None\<close> as \<open>true\<close>, \<open>false\<close> and \<open>null\<close>, and each is read
  back as the same. \<open>json_dump\<close> is \<open>None\<close> for what it does not cover: an object that \<open>json\<close>
  cannot write, and a key that is not a string (\<open>json\<close> writes some of those as strings,
  so that they are read back changed).\<close>

datatype json =
    JNull
  | JBool bool
  | JNumber int
  | JString string
  | JArray "json list"
  | JObject "(string \<times> json) list"

fun json_dump :: "pyval \<Rightarrow> json option"
and json_dump_list :: "pyval list \<Rightarrow> json list option"
and json_dump_items :: "(pyval \<times> pyval) list \<Rightarrow> (string \<times> json) list option"
where
  "json_dump PyNone = Some JNull"
| "json_dump (PyBool b) = Some (JBool b)"
| "json_dump (PyInt i) = Some (JNumber i)"
| "json_dump (PyStr s) = Some (JString s)"
| "json_dump (PyList xs) = map_option JArray (json_dump_list xs)"
| "json_dump (PyDict kvs) = map_option JObject (json_dump_items kvs)"
| "json_dump (PyOther t s) = None"
| "json_dump_list [] = Some []"
| "json_dump_list (x # xs) =
     (case json_dump x of
        None \<Rightarrow> None
      | Some j \<Rightarrow> map_option ((#) j) (json_dump_list xs))"
| "json_dump_items [] = Some []"
| "json_dump_items ((k, v) # kvs) =
     (case k of
        PyStr s \<Rightarrow>
          (case json_dump v of
             None \<Rightarrow> None
           | Some j \<Rightarrow> map_option ((#) (s, j)) (json_dump_items kvs))
      | _ \<Rightarrow> None)"

text \<open>\<open>d[k] = v\<close> on a dict kept in insertion order, and the dict that \<open>json.load\<close> builds
  from the members of an object (a repeated key keeps its last value).\<close>

fun dict_set :: "('k \<times> 'v) list \<Rightarrow> 'k \<Rightarrow> 'v \<Rightarrow> ('k \<times> 'v) list" where
  "dict_set [] k v = [(k, v)]"
| "dict_set ((k', v') # kvs) k v =
     (if k' = k then (k', v) # kvs else (k', v') # dict_set kvs k v)"

definition dict_of_pairs :: "('k \<times> 'v) list \<Rightarrow> ('k \<times> 'v) list" where
  "dict_of_pairs ps = foldl (\<lambda>d (k, v). dict_set d k v) [] ps"

fun json_load :: "json \<Rightarrow> pyval"
and json_load_list :: "json list \<Rightarrow> pyval list"
and json_load_items :: "(string \<times> json) list \<Rightarrow> (pyval \<times> pyval) list"
where
  "json_load JNull = PyNone"
| "json_load (JBool b) = PyBool b"
| "json_load (JNumber i) = PyInt i"
| "json_load (JString s) = PyStr s"
| "json_load (JArray xs) = PyList (json_load_list xs)"
| "json_load (JObject kvs) = PyDict (dict_of_pairs (json_load_items kvs))"
| "json_load_list [] = []"
| "json_load_list (x # xs) = json_load x # json_load_list xs"
| "json_load_items [] = []"
| "json_load_items ((k, v) # kvs) = (PyStr k, json_load v) # json_load_items kvs"

text \<open>The dict that \<open>parse_md\<close> builds for a node, the value \<open>data\<close> of \<open>main\<close>.\<close>

fun node_dict :: "node \<Rightarrow> pyval"
and node_dicts :: "node list \<Rightarrow> pyval list"
where
  "node_dict (Node i t c cs) =
     PyDict [(PyStr ''id'', PyStr i), (PyStr ''title'', PyStr t), (PyStr ''content'', PyStr c),
             (PyStr ''children'', PyList (node_dicts cs))]"
| "node_dicts [] = []"
| "node_dicts (n # ns) = node_dict n # node_dicts ns"

subsection \<open>The resolver in the words of the specification\<close>

text \<open>The candidates in the order of the specification: the path itself; where it has no
  extension, the path with \<open>.md\<close>, \<open>.markdown\<close>, \<open>.mdx\<close> appended; where it is a directory
  or ends with the separator, the three index files inside it.\<close>

definition spec_candidates :: "filesystem \<Rightarrow> path \<Rightarrow> path list" where
  "spec_candidates fs c =
     c # (if snd (splitext c) = [] then [c @ ''.md'', c @ ''.markdown'', c @ ''.mdx''] else [])
       @ (if fs_isdir fs c \<or> endswith c ''/''
          then [join c ''index.md'', join c ''index.markdown'', join c ''index.mdx''] else [])"

text \<open>A candidate qualifies when it exists, after the fallback to a match up to case, under
  a name with one of the three extensions.\<close>

definition qualifies :: "filesystem \<Rightarrow> path \<Rightarrow> bool" where
  "qualifies fs c =
     (case case_insensitive_existing fs c of
        None \<Rightarrow> False
      | Some hit \<Rightarrow> lower (snd (splitext hit)) \<in> {''.md'', ''.markdown'', ''.mdx''})"

subsection \<open>The title in the words of the specification\<close>

text \<open>The valid title of a frontmatter: the value of its \<open>title\<close> field, where the
  frontmatter is a mapping that has the field with a value that counts as true.\<close>

definition frontmatter_title :: "pyval \<Rightarrow> pyval option" where
  "frontmatter_title fm =
     (case fm of
        PyDict kvs \<Rightarrow>
          (case map_of kvs (PyStr ''title'') of
             Some v \<Rightarrow> if truthy v then Some v else None
           | None \<Rightarrow> None)
      | _ \<Rightarrow> None)"

text \<open>The title by precedence: the valid frontmatter title, else the label of the inbound
  link (an empty label counts as none), else the stem of the file name.\<close>

definition title_by_precedence :: "pylib \<Rightarrow> pyval \<Rightarrow> string option \<Rightarrow> path \<Rightarrow> string" where
  "title_by_precedence L fm link_text p =
     (case frontmatter_title fm of
        Some v \<Rightarrow> py_str L v
      | None \<Rightarrow>
          (case link_text of
             Some l \<Rightarrow> if l \<noteq> [] then l else stem p
           | None \<Rightarrow> stem p))"

subsection \<open>Example libraries and file systems\<close>

text \<open>A library for the examples. It agrees with the Python library on the inputs of the
  examples: link targets without a scheme parse to their path, and the frontmatter blocks
  are the ones listed.\<close>

definition example_lib :: pylib where
  "example_lib =
     \<lparr> urlparse = (\<lambda>s.
         if s = ''http://example.com/x''
         then Inr \<lparr> scheme = ''http'', netloc = ''example.com'', url_path = ''/x'' \<rparr>
         else if s = ''mailto:me@example.com''
         then Inr \<lparr> scheme = ''mailto'', netloc = [], url_path = ''me@example.com'' \<rparr>
         else Inr \<lparr> scheme = [], netloc = [], url_path = s \<rparr>),
       unquote = (\<lambda>s. s),
       yaml_safe_load = (\<lambda>s.
         if s = ''title: Home'' then Some (PyDict [(PyStr ''title'', PyStr ''Home'')])
         else if s = ''title: 0'' then Some (PyDict [(PyStr ''title'', PyInt 0)])
         else if s = ''author: me'' then Some (PyDict [(PyStr ''author'', PyStr ''me'')])
         else None),
       markdown = (\<lambda>s. ''<p>'' @ s @ ''</p>''),
       repr_str = (\<lambda>v. ''?'') \<rparr>"

text \<open>A file system without links between its paths, given by its readable files and its
  directories, each with its listing (\<open>None\<close> for a directory that may not be listed).\<close>

definition example_fs ::
  "(path \<times> string) list \<Rightarrow> (path \<times> string list option) list \<Rightarrow> filesystem" where
  "example_fs files dirs =
     \<lparr> fs_cwd = ''/'',
       fs_exists = (\<lambda>p. p \<in> set (map fst files) \<or> p \<in> set (map fst dirs)),
       fs_isdir = (\<lambda>p. p \<in> set (map fst dirs)),
       fs_listdir = (\<lambda>p. case map_of dirs p of Some l \<Rightarrow> l | None \<Rightarrow> None),
       fs_resolve = (\<lambda>p. p),
       fs_files = files \<rparr>"

definition fs_notes :: filesystem where
  "fs_notes = example_fs
     [(''/docs/a.md'', ''[n](notes)''), (''/docs/notes.md'', ''Notes'')]
     [(''/docs'', Some [''a.md'', ''notes.md''])]"

definition fs_sub :: filesystem where
  "fs_sub = example_fs
     [(''/docs/a.md'', ''[s](Sub/)''), (''/docs/Sub/index.mdx'', ''Index'')]
     [(''/docs'', Some [''a.md'', ''Sub'']), (''/docs/Sub'', Some [''index.mdx''])]"

definition fs_readme :: filesystem where
  "fs_readme = example_fs
     [(''/docs/a.md'', ''[r](README.md)''), (''/docs/readme.md'', ''Read me'')]
     [(''/docs'', Some [''a.md'', ''readme.md''])]"

definition fs_denied :: filesystem where
  "fs_denied = example_fs
     [(''/docs/a.md'', ''[r](README.md)''), (''/docs/readme.md'', ''Read me'')]
     [(''/docs'', None)]"

definition fs_two_labels :: filesystem where
  "fs_two_labels = example_fs
     [(''/docs/a.md'', ''[Foo](b.md) and [Bar](b.md)''), (''/docs/b.md'', ''leaf'')]
     [(''/docs'', Some [''a.md'', ''b.md''])]"

definition fs_cycle :: filesystem where
  "fs_cycle = example_fs
     [(''/docs/a.md'', ''[B](b.md)''), (''/docs/b.md'', ''[A](a.md)'')]
     [(''/docs'', Some [''a.md'', ''b.md''])]"

definition fs_titled :: filesystem where
  "fs_titled = example_fs
     [(''/docs/a.md'', ''[Foo](b.md) [Bar](c.md) [Baz](d.md) [Qux](e.md)''),
      (''/docs/b.md'', ''---\<newline>title: Home\<newline>---\<newline>home''),
      (''/docs/c.md'', ''---\<newline>title: 0\<newline>---\<newline>zero''),
      (''/docs/d.md'', ''---\<newline>author: me\<newline>---\<newline>mine''),
      (''/docs/e.md'', ''---\<newline>title: [\<newline>---\<newline>broken'')]
     [(''/docs'', Some [''a.md'', ''b.md'', ''c.md'', ''d.md'', ''e.md''])]"

definition fs_unreadable :: filesystem where
  "fs_unreadable = example_fs
     [(''/docs/a.md'', ''[Gone](x.md)'')]
     [(''/docs'', Some [''a.md'', ''x.md'']), (''/docs/x.md'', Some [])]"

section \<open>Properties\<close>

subsection \<open>The cases of \<open>parse_md\<close> and of a step of its loop\<close>

lemma parse_md_unreadable:
  "read_file_text fs (fs_resolve fs path0) = None \<Longrightarrow>
   parse_md (Suc n) L fs path0 seen link_text = Some (Inr (None, seen))"
  by (simp add: Let_def)

lemma parse_md_raises:
  "read_file_text fs (fs_resolve fs path0) = Some src \<Longrightarrow>
   parse_frontmatter L src = (fm, body) \<Longrightarrow> fm_get_title fm = Inl e \<Longrightarrow>
   parse_md (Suc n) L fs path0 seen link_text = Some (Inl e)"
  by (simp add: Let_def)

lemma parse_md_truncated:
  "read_file_text fs (fs_resolve fs path0) = Some src \<Longrightarrow>
   parse_frontmatter L src = (fm, body) \<Longrightarrow> fm_get_title fm = Inr fm_title \<Longrightarrow>
   fs_resolve fs path0 \<in> seen \<Longrightarrow>
   parse_md (Suc n) L fs path0 seen link_text =
     Some (Inr (Some (Node (fs_resolve fs path0)
              (node_title L fm_title link_text (fs_resolve fs path0)) (markdown L body) []), seen))"
  by (simp add: Let_def)

lemma parse_md_descends:
  "read_file_text fs (fs_resolve fs path0) = Some src \<Longrightarrow>
   parse_frontmatter L src = (fm, body) \<Longrightarrow> fm_get_title fm = Inr fm_title \<Longrightarrow>
   fs_resolve fs path0 \<notin> seen \<Longrightarrow>
   parse_md (Suc n) L fs path0 seen link_text =
     (case walk_links n L fs (fs_resolve fs path0) (extract_links body)
             (insert (fs_resolve fs path0) seen) of
        None \<Rightarrow> None
      | Some (Inl e) \<Rightarrow> Some (Inl e)
      | Some (Inr (cs, seen')) \<Rightarrow>
          Some (Inr (Some (Node (fs_resolve fs path0)
              (node_title L fm_title link_text (fs_resolve fs path0)) (markdown L body) cs), seen')))"
  by (simp add: Let_def)

lemma walk_links_raises:
  "is_external_link L t = Inl e \<Longrightarrow>
   walk_links n L fs p ((l, t) # rest) seen = Some (Inl e)"
  by simp

lemma walk_links_external:
  "is_external_link L t = Inr True \<Longrightarrow>
   walk_links n L fs p ((l, t) # rest) seen =
     append_child (external_node l t) (walk_links n L fs p rest seen)"
  by simp

lemma walk_links_resolve_raises:
  "is_external_link L t = Inr False \<Longrightarrow> resolve_link L fs p t = Inl e \<Longrightarrow>
   walk_links n L fs p ((l, t) # rest) seen = Some (Inl e)"
  by simp

lemma walk_links_unresolved:
  "is_external_link L t = Inr False \<Longrightarrow> resolve_link L fs p t = Inr resolved \<Longrightarrow>
   truthy_path resolved = None \<Longrightarrow>
   walk_links n L fs p ((l, t) # rest) seen =
     append_child (unresolved_node l t) (walk_links n L fs p rest seen)"
  by simp

lemma walk_links_resolved:
  "is_external_link L t = Inr False \<Longrightarrow> resolve_link L fs p t = Inr resolved \<Longrightarrow>
   truthy_path resolved = Some r \<Longrightarrow>
   walk_links n L fs p ((l, t) # rest) seen =
     (case parse_md n L fs r seen (Some l) of
        None \<Rightarrow> None
      | Some (Inl e) \<Rightarrow> Some (Inl e)
      | Some (Inr (child, seen1)) \<Rightarrow>
          append_child (case child of Some c \<Rightarrow> c | None \<Rightarrow> could_not_load_node l r)
            (walk_links n L fs p rest seen1))"
  by simp

declare parse_md.simps(2) [simp del] walk_links.simps(2) [simp del]

subsection \<open>The cache round trip\<close>

lemma json_roundtrip_nodes:
  "map_option json_load (json_dump (node_dict n)) = Some (node_dict n)"
  "map_option json_load_list (json_dump_list (node_dicts ns)) = Some (node_dicts ns)"
proof (induction n and ns rule: node_dict_node_dicts.induct)
  case (1 i t c cs)
  then obtain js where js: "json_dump_list (node_dicts cs) = Some js"
    and rt: "json_load_list js = node_dicts cs"
    by (cases "json_dump_list (node_dicts cs)") auto
  then show ?case by (simp add: dict_of_pairs_def)
next
  case 2
  show ?case by simp
next
  case (3 n ns)
  then show ?case
    by (cases "json_dump (node_dict n)"; cases "json_dump_list (node_dicts ns)") auto
qed

text \<open>Two nodes with the same dict are the same node, so nothing of a tree is lost in its
  dict.\<close>

lemma node_dict_inj: "node_dict a = node_dict b \<Longrightarrow> a = b"
  and node_dicts_inj: "node_dicts as = node_dicts bs \<Longrightarrow> as = bs"
proof (induction a and as arbitrary: b and bs rule: node_dict_node_dicts.induct)
  case (1 i t c cs)
  then show ?case by (cases b) auto
next
  case 2
  then show ?case by (cases bs) auto
next
  case (3 n ns)
  then show ?case by (cases bs) auto
qed

text \<open>Claim C9. For every node tree, writing its dict with \<open>json.dump\<close> succeeds, and
  reading the result with \<open>json.load\<close> gives the same dict again: the keys \<open>id\<close>, \<open>title\<close>,
  \<open>content\<close> and \<open>children\<close> with their values, the children in their order. It holds for
  every tree, so for every tree that the walker produces.\<close>

theorem cache_roundtrip:
  "map_option json_load (json_dump (node_dict n)) = Some (node_dict n)"
  by (rule json_roundtrip_nodes)

subsection \<open>The frontmatter parser\<close>

lemma ws_newline_shape:
  assumes "ws_newline s = Some r"
  shows "\<exists>w. s = w @ CHR 0x0A # r \<and> list_all is_space w"
proof -
  define w0 where "w0 = takeWhile is_space s"
  define P where "P = (\<lambda>c. c \<noteq> CHR 0x0A)"
  from assms have nl: "CHR 0x0A \<in> set w0"
    and r: "r = rev (takeWhile P (rev w0)) @ dropWhile is_space s"
    by (auto simp: ws_newline_def Let_def w0_def P_def split: if_splits)
  from nl have "dropWhile P (rev w0) \<noteq> []"
    by (auto simp: dropWhile_eq_Nil_conv P_def)
  then obtain x zs where d: "dropWhile P (rev w0) = x # zs"
    by (cases "dropWhile P (rev w0)") auto
  have "\<not> P (hd (dropWhile P (rev w0)))"
    using \<open>dropWhile P (rev w0) \<noteq> []\<close> by (rule hd_dropWhile)
  with d have x: "x = CHR 0x0A" by (simp add: P_def)
  have "rev w0 = takeWhile P (rev w0) @ dropWhile P (rev w0)" by simp
  then have "w0 = rev (dropWhile P (rev w0)) @ rev (takeWhile P (rev w0))"
    by (metis rev_append rev_rev_ident)
  with d x have w0: "w0 = rev zs @ CHR 0x0A # rev (takeWhile P (rev w0))" by simp
  have "s = w0 @ dropWhile is_space s" by (simp add: w0_def)
  with w0 r have "s = rev zs @ CHR 0x0A # r" by (metis append.assoc append_Cons)
  moreover have "list_all is_space w0"
    by (auto simp: w0_def list_all_iff dest: set_takeWhileD)
  with w0 have "list_all is_space (rev zs)"
    by (metis list_all_append)
  ultimately show ?thesis by blast
qed

lemma close_here_shape:
  assumes "close_here s = Some b"
  shows "\<exists>w. s = ''\<newline>---'' @ w @ CHR 0x0A # b \<and> list_all is_space w"
proof -
  from assms have st: "startswith s ''\<newline>---''" and ws: "ws_newline (drop 4 s) = Some b"
    by (auto simp: close_here_def split: if_splits)
  from ws_newline_shape [OF ws] obtain w where
    w: "drop 4 s = w @ CHR 0x0A # b" and sp: "list_all is_space w" by blast
  from st have "take 4 s = ''\<newline>---''" by (simp add: startswith_def eval_nat_numeral)
  then have "s = ''\<newline>---'' @ drop 4 s" by (metis append_take_drop_id)
  with w sp show ?thesis by auto
qed

lemma find_close_shape:
  "find_close s = Some (g, b) \<Longrightarrow>
   \<exists>w. s = g @ ''\<newline>---'' @ w @ CHR 0x0A # b \<and> list_all is_space w"
proof (induction s arbitrary: g)
  case Nil
  then show ?case by simp
next
  case (Cons c cs)
  show ?case
  proof (cases "close_here (c # cs)")
    case (Some body)
    with Cons.prems have "g = []" "b = body" by simp_all
    with close_here_shape [OF Some] show ?thesis by simp
  next
    case None
    with Cons.prems obtain g' where g: "g = c # g'" and f: "find_close cs = Some (g', b)"
      by (auto split: option.splits)
    from Cons.IH [OF f] g show ?thesis by auto
  qed
qed

lemma open_alternatives_shape:
  "r \<in> set (open_alternatives s) \<Longrightarrow> \<exists>w. s = w @ CHR 0x0A # r \<and> list_all is_space w"
proof (induction s)
  case Nil
  then show ?case by simp
next
  case (Cons c cs)
  show ?case
  proof (cases "is_space c")
    case False
    with Cons.prems show ?thesis by simp
  next
    case True
    show ?thesis
    proof (cases "c = CHR 0x0A \<and> r = cs")
      case True
      then have "c # cs = [] @ CHR 0x0A # r \<and> list_all is_space []" by simp
      then show ?thesis by blast
    next
      case False
      with Cons.prems \<open>is_space c\<close> have "r \<in> set (open_alternatives cs)"
        by (auto split: if_splits)
      from Cons.IH [OF this] obtain w where "cs = w @ CHR 0x0A # r" "list_all is_space w"
        by blast
      with \<open>is_space c\<close> have "c # cs = (c # w) @ CHR 0x0A # r \<and> list_all is_space (c # w)"
        by simp
      then show ?thesis by blast
    qed
  qed
qed

lemma first_some_in: "first_some f xs = Some y \<Longrightarrow> \<exists>x \<in> set xs. f x = Some y"
  by (induction xs) (auto split: option.splits)

text \<open>What a match is: the text is the opening delimiter line, the first group, the
  closing delimiter line and the second group, in this order.\<close>

lemma match_frontmatter_shape:
  assumes "match_frontmatter s = Some (g, b)"
  shows "\<exists>w1 w2. s = ''---'' @ w1 @ CHR 0x0A # g @ ''\<newline>---'' @ w2 @ CHR 0x0A # b \<and>
           list_all is_space w1 \<and> list_all is_space w2"
proof -
  from assms have st: "startswith s ''---''"
    and fs: "first_some find_close (rev (open_alternatives (drop 3 s))) = Some (g, b)"
    by (auto simp: match_frontmatter_def split: if_splits)
  from first_some_in [OF fs] obtain r where
    r: "r \<in> set (open_alternatives (drop 3 s))" and f: "find_close r = Some (g, b)" by auto
  from open_alternatives_shape [OF r] obtain w1 where
    w1: "drop 3 s = w1 @ CHR 0x0A # r" "list_all is_space w1" by blast
  from find_close_shape [OF f] obtain w2 where
    w2: "r = g @ ''\<newline>---'' @ w2 @ CHR 0x0A # b" "list_all is_space w2" by blast
  from st have "take 3 s = ''---''" by (simp add: startswith_def eval_nat_numeral)
  then have "s = ''---'' @ drop 3 s" by (metis append_take_drop_id)
  with w1 w2 show ?thesis by auto
qed

text \<open>Claim C6. Where the text matches the delimited-block pattern and the block between
  the delimiters does not load as YAML, \<open>parse_frontmatter\<close> returns the empty mapping and
  the second group of the match as body: the text after the closing delimiter line, so the
  delimiters are stripped. Where the text does not match the pattern, it returns the empty
  mapping and the whole text. It never raises: its result is a pair in every case, with the
  body determined by the match alone, since the one call that can raise,
  \<open>yaml.safe_load\<close>, is inside the \<open>try\<close>.\<close>

theorem parse_frontmatter_fallbacks:
  "(\<forall>fm_text body.
      match_frontmatter s = Some (fm_text, body) \<and> yaml_safe_load L fm_text = None \<longrightarrow>
        parse_frontmatter L s = (PyDict [], body) \<and>
        (\<exists>w1 w2. s = ''---'' @ w1 @ CHR 0x0A # fm_text @ ''\<newline>---'' @ w2 @ CHR 0x0A # body \<and>
           list_all is_space w1 \<and> list_all is_space w2)) \<and>
   (match_frontmatter s = None \<longrightarrow> parse_frontmatter L s = (PyDict [], s)) \<and>
   snd (parse_frontmatter L s) = (case match_frontmatter s of Some (fm_text, body) \<Rightarrow> body | None \<Rightarrow> s)"
proof (intro conjI allI impI)
  fix fm_text body
  assume a: "match_frontmatter s = Some (fm_text, body) \<and> yaml_safe_load L fm_text = None"
  then show "parse_frontmatter L s = (PyDict [], body)"
    by (simp add: parse_frontmatter_def)
  from a match_frontmatter_shape [of s fm_text body]
  show "\<exists>w1 w2. s = ''---'' @ w1 @ CHR 0x0A # fm_text @ ''\<newline>---'' @ w2 @ CHR 0x0A # body \<and>
           list_all is_space w1 \<and> list_all is_space w2"
    by blast
next
  assume "match_frontmatter s = None"
  then show "parse_frontmatter L s = (PyDict [], s)"
    by (simp add: parse_frontmatter_def)
next
  show "snd (parse_frontmatter L s) =
      (case match_frontmatter s of Some (fm_text, body) \<Rightarrow> body | None \<Rightarrow> s)"
    by (simp add: parse_frontmatter_def split: option.splits prod.splits)
qed

theorem parse_frontmatter_fallbacks_witness:
  "parse_frontmatter example_lib ''---\<newline>title: [\<newline>---\<newline>broken'' = (PyDict [], ''broken'') \<and>
   parse_frontmatter example_lib ''no frontmatter'' = (PyDict [], ''no frontmatter'')"
proof -
  have m: "match_frontmatter ''---\<newline>title: [\<newline>---\<newline>broken'' = Some (''title: ['', ''broken'')"
    by code_simp
  have y: "yaml_safe_load example_lib ''title: ['' = None"
    by (simp add: example_lib_def)
  have n: "match_frontmatter ''no frontmatter'' = None"
    by code_simp
  from parse_frontmatter_fallbacks [of "''---\<newline>title: [\<newline>---\<newline>broken''" example_lib] m y
  have "parse_frontmatter example_lib ''---\<newline>title: [\<newline>---\<newline>broken'' = (PyDict [], ''broken'')"
    by blast
  moreover from parse_frontmatter_fallbacks [of "''no frontmatter''" example_lib] n
  have "parse_frontmatter example_lib ''no frontmatter'' = (PyDict [], ''no frontmatter'')"
    by blast
  ultimately show ?thesis by blast
qed

subsection \<open>External links\<close>

text \<open>Claim C5. A link target that \<open>urlparse\<close> parses with both a scheme and a network
  location is not resolved by \<open>resolve_link\<close>, whatever the file system holds, and
  \<open>is_external_link\<close> holds for it, so that the walker appends the external placeholder
  (content \<open>External link: target\<close> in italics, no children) and goes on with the next
  link. A target without a network location, with a scheme or without, is not external.\<close>

theorem external_link_classification:
  "(urlparse L link = Inr u \<and> scheme u \<noteq> [] \<and> netloc u \<noteq> [] \<longrightarrow>
      resolve_link L fs base_file link = Inr None \<and>
      is_external_link L link = Inr True \<and>
      walk_links n L fs p ((link_label, link) # rest) seen =
        append_child
          (Node link (py_or link_label link) (''<i>External link: '' @ link @ ''</i>'') [])
          (walk_links n L fs p rest seen)) \<and>
   (urlparse L link = Inr u \<and> netloc u = [] \<longrightarrow> is_external_link L link = Inr False)"
  by (simp add: resolve_link_def is_external_link_def walk_links_external external_node_def)

theorem external_link_classification_witness:
  "resolve_link example_lib fs_notes ''/docs/a.md'' ''http://example.com/x'' = Inr None \<and>
   is_external_link example_lib ''http://example.com/x'' = Inr True \<and>
   walk_links 0 example_lib fs_notes ''/docs/a.md'' [(''web'', ''http://example.com/x'')] {} =
     Some (Inr ([Node ''http://example.com/x'' ''web''
                   ''<i>External link: http://example.com/x</i>'' []], {})) \<and>
   is_external_link example_lib ''mailto:me@example.com'' = Inr False"
proof -
  have u: "urlparse example_lib ''http://example.com/x'' =
      Inr \<lparr> scheme = ''http'', netloc = ''example.com'', url_path = ''/x'' \<rparr>"
    by (simp add: example_lib_def)
  have m: "urlparse example_lib ''mailto:me@example.com'' =
      Inr \<lparr> scheme = ''mailto'', netloc = [], url_path = ''me@example.com'' \<rparr>"
    by (simp add: example_lib_def)
  from u external_link_classification [of example_lib "''http://example.com/x''"
      "\<lparr> scheme = ''http'', netloc = ''example.com'', url_path = ''/x'' \<rparr>"
      fs_notes "''/docs/a.md''" 0 "''/docs/a.md''" "''web''" "[]" "{}"]
  have a: "resolve_link example_lib fs_notes ''/docs/a.md'' ''http://example.com/x'' = Inr None \<and>
      is_external_link example_lib ''http://example.com/x'' = Inr True \<and>
      walk_links 0 example_lib fs_notes ''/docs/a.md'' [(''web'', ''http://example.com/x'')] {} =
        Some (Inr ([Node ''http://example.com/x'' ''web''
                   ''<i>External link: http://example.com/x</i>'' []], {}))"
    by (simp add: append_child_def py_or_def)
  from m external_link_classification [of example_lib "''mailto:me@example.com''"
      "\<lparr> scheme = ''mailto'', netloc = [], url_path = ''me@example.com'' \<rparr>"]
  have b: "is_external_link example_lib ''mailto:me@example.com'' = Inr False"
    by simp
  from a b show ?thesis by blast
qed

subsection \<open>The fallback to a match up to case\<close>

lemma first_match_find:
  "first_match fs d b entries =
     map_option (\<lambda>e. abspath (fs_cwd fs) (join d e))
       (find (\<lambda>e. lower e = lower b \<and> fs_exists fs (join d e)) entries)"
  by (induction entries) auto

lemma resolve_readme:
  "resolve_link example_lib fs_readme ''/docs/a.md'' ''README.md'' = Inr (Some ''/docs/readme.md'')"
  by code_simp

lemma resolve_denied:
  "resolve_link example_lib fs_denied ''/docs/a.md'' ''README.md'' = Inr None"
  by code_simp

text \<open>Claim C8. For a candidate that does not exist as it is written,
  \<open>_case_insensitive_existing\<close> lists the directory of the candidate and returns the first
  entry, in the order of the listing, that equals the candidate's base name up to case and
  exists; where the listing raises \<open>PermissionError\<close> it returns \<open>None\<close>, which
  \<open>resolve_link\<close> takes as no match for this candidate. So \<open>README.md\<close>, linked from
  \<open>/docs/a.md\<close>, resolves to \<open>/docs/readme.md\<close> where that is the file that exists, and to
  nothing, without an exception, where \<open>/docs\<close> may not be listed.\<close>

theorem case_insensitive_fallback:
  "(\<not> fs_exists fs c \<and> fs_isdir fs (dirname c) \<and> fs_listdir fs (dirname c) = Some entries \<longrightarrow>
      case_insensitive_existing fs c =
        map_option (\<lambda>e. abspath (fs_cwd fs) (join (dirname c) e))
          (find (\<lambda>e. lower e = lower (basename c) \<and> fs_exists fs (join (dirname c) e)) entries)) \<and>
   (\<not> fs_exists fs c \<and> fs_listdir fs (dirname c) = None \<longrightarrow>
      case_insensitive_existing fs c = None \<and> first_hit fs (c # cs) = first_hit fs cs) \<and>
   resolve_link example_lib fs_readme ''/docs/a.md'' ''README.md'' = Inr (Some ''/docs/readme.md'') \<and>
   resolve_link example_lib fs_denied ''/docs/a.md'' ''README.md'' = Inr None"
proof (intro conjI impI)
  assume "\<not> fs_exists fs c \<and> fs_isdir fs (dirname c) \<and> fs_listdir fs (dirname c) = Some entries"
  then show "case_insensitive_existing fs c =
        map_option (\<lambda>e. abspath (fs_cwd fs) (join (dirname c) e))
          (find (\<lambda>e. lower e = lower (basename c) \<and> fs_exists fs (join (dirname c) e)) entries)"
    by (simp add: case_insensitive_existing_def Let_def first_match_find)
next
  assume a: "\<not> fs_exists fs c \<and> fs_listdir fs (dirname c) = None"
  then show n: "case_insensitive_existing fs c = None"
    by (simp add: case_insensitive_existing_def Let_def)
  then show "first_hit fs (c # cs) = first_hit fs cs" by simp
qed (rule resolve_readme resolve_denied)+

theorem case_insensitive_fallback_witness:
  "case_insensitive_existing fs_readme ''/docs/README.md'' = Some ''/docs/readme.md'' \<and>
   case_insensitive_existing fs_denied ''/docs/README.md'' = None"
proof -
  have h1: "\<not> fs_exists fs_readme ''/docs/README.md'' \<and> fs_isdir fs_readme (dirname ''/docs/README.md'') \<and>
      fs_listdir fs_readme (dirname ''/docs/README.md'') = Some [''a.md'', ''readme.md'']"
    by code_simp
  have h2: "\<not> fs_exists fs_denied ''/docs/README.md'' \<and>
      fs_listdir fs_denied (dirname ''/docs/README.md'') = None"
    by code_simp
  have v: "map_option (\<lambda>e. abspath (fs_cwd fs_readme) (join (dirname ''/docs/README.md'') e))
          (find (\<lambda>e. lower e = lower (basename ''/docs/README.md'') \<and>
                      fs_exists fs_readme (join (dirname ''/docs/README.md'') e))
             [''a.md'', ''readme.md'']) = Some ''/docs/readme.md''"
    by code_simp
  from case_insensitive_fallback [of fs_readme "''/docs/README.md''" "[''a.md'', ''readme.md'']"] h1 v
  have "case_insensitive_existing fs_readme ''/docs/README.md'' = Some ''/docs/readme.md''"
    by simp
  moreover from case_insensitive_fallback [of fs_denied "''/docs/README.md''"] h2
  have "case_insensitive_existing fs_denied ''/docs/README.md'' = None"
    by blast
  ultimately show ?thesis by blast
qed

subsection \<open>The order of the candidates\<close>

lemma candidates_spec: "candidates fs raw_abs = spec_candidates fs raw_abs"
  by (simp add: candidates_def spec_candidates_def MD_EXTS_def)

lemma splitext_Nil: "snd (splitext []) = []"
  by (simp add: splitext_def ext_of_name_def basename_def)

lemma first_hit_find:
  "first_hit fs cs =
     (case find (qualifies fs) cs of
        None \<Rightarrow> None
      | Some c \<Rightarrow> map_option (abspath (fs_cwd fs)) (case_insensitive_existing fs c))"
proof (induction cs)
  case Nil
  show ?case by simp
next
  case (Cons c cs)
  show ?case
  proof (cases "case_insensitive_existing fs c")
    case None
    with Cons show ?thesis by (simp add: qualifies_def)
  next
    case (Some hit)
    have "hit \<noteq> [] \<and> lower (snd (splitext hit)) \<in> set MD_EXTS \<longleftrightarrow> qualifies fs c"
      using Some by (cases "hit = []") (auto simp: qualifies_def MD_EXTS_def splitext_Nil lower_def)
    with Some Cons show ?thesis by simp
  qed
qed

lemma resolve_notes:
  "resolve_link example_lib fs_notes ''/docs/a.md'' ''notes'' = Inr (Some ''/docs/notes.md'')"
  by code_simp

lemma resolve_sub:
  "resolve_link example_lib fs_sub ''/docs/a.md'' ''Sub/'' = Inr (Some ''/docs/Sub/index.mdx'')"
  by code_simp

text \<open>Claim C4. For a target that is not external and whose path is not empty,
  \<open>resolve_link\<close> tests the candidates in the order of the specification (the resolved path;
  without an extension, the path with \<open>.md\<close>, \<open>.markdown\<close>, \<open>.mdx\<close> appended; for a directory
  or a path that ends with the separator, \<open>index.md\<close>, \<open>index.markdown\<close>, \<open>index.mdx\<close>
  inside it) and returns the first one that exists under a name with one of the three
  extensions, in the normalised form of the name it exists under; a candidate that exists
  as it is written exists under its own name. So \<open>notes\<close>, linked from \<open>/docs/a.md\<close>,
  resolves to \<open>/docs/notes.md\<close> where that file is present, and \<open>Sub/\<close> resolves to
  \<open>/docs/Sub/index.mdx\<close> where that is the only index file.\<close>

theorem resolve_link_candidate_order:
  "(urlparse L link = Inr u \<and> \<not> (scheme u \<noteq> [] \<and> netloc u \<noteq> []) \<and>
    strip (unquote L (url_path u)) \<noteq> [] \<longrightarrow>
      resolve_link L fs base_file link =
        Inr (case find (qualifies fs)
                    (spec_candidates fs
                       (abspath (fs_cwd fs)
                          (join (dirname base_file) (strip (unquote L (url_path u)))))) of
               None \<Rightarrow> None
             | Some c \<Rightarrow> map_option (abspath (fs_cwd fs)) (case_insensitive_existing fs c))) \<and>
   (fs_exists fs c \<longrightarrow> case_insensitive_existing fs c = Some (abspath (fs_cwd fs) c)) \<and>
   resolve_link example_lib fs_notes ''/docs/a.md'' ''notes'' = Inr (Some ''/docs/notes.md'') \<and>
   resolve_link example_lib fs_sub ''/docs/a.md'' ''Sub/'' = Inr (Some ''/docs/Sub/index.mdx'')"
proof (intro conjI impI)
  assume "urlparse L link = Inr u \<and> \<not> (scheme u \<noteq> [] \<and> netloc u \<noteq> []) \<and>
    strip (unquote L (url_path u)) \<noteq> []"
  then show "resolve_link L fs base_file link =
        Inr (case find (qualifies fs)
                    (spec_candidates fs
                       (abspath (fs_cwd fs)
                          (join (dirname base_file) (strip (unquote L (url_path u)))))) of
               None \<Rightarrow> None
             | Some c \<Rightarrow> map_option (abspath (fs_cwd fs)) (case_insensitive_existing fs c))"
    by (auto simp: resolve_link_def Let_def candidates_spec first_hit_find)
next
  assume "fs_exists fs c"
  then show "case_insensitive_existing fs c = Some (abspath (fs_cwd fs) c)"
    by (simp add: case_insensitive_existing_def)
qed (rule resolve_notes resolve_sub)+

theorem resolve_link_candidate_order_witness:
  "resolve_link example_lib fs_notes ''/docs/a.md'' ''notes'' =
     Inr (case find (qualifies fs_notes)
                 [''/docs/notes'', ''/docs/notes.md'', ''/docs/notes.markdown'', ''/docs/notes.mdx''] of
            None \<Rightarrow> None
          | Some c \<Rightarrow> map_option (abspath ''/'') (case_insensitive_existing fs_notes c)) \<and>
   find (qualifies fs_notes)
     [''/docs/notes'', ''/docs/notes.md'', ''/docs/notes.markdown'', ''/docs/notes.mdx''] =
     Some ''/docs/notes.md'' \<and>
   case_insensitive_existing fs_notes ''/docs/notes.md'' = Some ''/docs/notes.md''"
proof -
  define u where "u = \<lparr> scheme = [], netloc = [], url_path = ''notes'' \<rparr>"
  have h: "urlparse example_lib ''notes'' = Inr u \<and> \<not> (scheme u \<noteq> [] \<and> netloc u \<noteq> []) \<and>
      strip (unquote example_lib (url_path u)) \<noteq> []"
    unfolding u_def by code_simp
  have c: "spec_candidates fs_notes
         (abspath (fs_cwd fs_notes)
            (join (dirname ''/docs/a.md'') (strip (unquote example_lib (url_path u))))) =
       [''/docs/notes'', ''/docs/notes.md'', ''/docs/notes.markdown'', ''/docs/notes.mdx'']"
    unfolding u_def by code_simp
  have cwd: "fs_cwd fs_notes = ''/''"
    by (simp add: fs_notes_def example_fs_def)
  have e: "fs_exists fs_notes ''/docs/notes.md''"
    by code_simp
  have n: "abspath ''/'' ''/docs/notes.md'' = ''/docs/notes.md''"
    by code_simp
  have f: "find (qualifies fs_notes)
     [''/docs/notes'', ''/docs/notes.md'', ''/docs/notes.markdown'', ''/docs/notes.mdx''] =
     Some ''/docs/notes.md''"
    by code_simp
  note t = resolve_link_candidate_order [of example_lib "''notes''" u fs_notes "''/docs/a.md''"
      "''/docs/notes.md''"]
  from t h c cwd have "resolve_link example_lib fs_notes ''/docs/a.md'' ''notes'' =
     Inr (case find (qualifies fs_notes)
                 [''/docs/notes'', ''/docs/notes.md'', ''/docs/notes.markdown'', ''/docs/notes.mdx''] of
            None \<Rightarrow> None
          | Some c \<Rightarrow> map_option (abspath ''/'') (case_insensitive_existing fs_notes c))"
    by simp
  moreover from t e cwd n
  have "case_insensitive_existing fs_notes ''/docs/notes.md'' = Some ''/docs/notes.md''"
    by simp
  ultimately show ?thesis using f by blast
qed

subsection \<open>What \<open>parse_md\<close> returns\<close>

lemma fm_get_title_precedence:
  "fm_get_title fm = Inr v \<Longrightarrow>
   node_title L v link_text p = title_by_precedence L fm link_text p"
  by (cases fm)
    (auto simp: fm_get_title_def node_title_def title_by_precedence_def frontmatter_title_def
      split: option.splits if_splits)

text \<open>A call that returns a node has read the file and found a frontmatter that has \<open>get\<close>;
  the node has the canonical path as its id and the title by precedence.\<close>

lemma parse_md_node:
  assumes "parse_md n L fs path0 seen link_text = Some (Inr (Some nd, seen'))"
  shows "\<exists>src. read_file_text fs (fs_resolve fs path0) = Some src \<and>
           node_id nd = fs_resolve fs path0 \<and>
           title nd = title_by_precedence L (fst (parse_frontmatter L src)) link_text
                        (fs_resolve fs path0) \<and>
           content nd = markdown L (snd (parse_frontmatter L src)) \<and>
           (fs_resolve fs path0 \<in> seen \<longrightarrow> children nd = [] \<and> seen' = seen)"
proof (cases n)
  case 0
  with assms show ?thesis by simp
next
  case (Suc m)
  show ?thesis
  proof (cases "read_file_text fs (fs_resolve fs path0)")
    case None
    from parse_md_unreadable [OF None] assms Suc show ?thesis by simp
  next
    case (Some src)
    obtain fm body where pf: "parse_frontmatter L src = (fm, body)"
      by (cases "parse_frontmatter L src")
    show ?thesis
    proof (cases "fm_get_title fm")
      case (Inl e)
      from parse_md_raises [OF Some pf Inl] assms Suc show ?thesis by simp
    next
      case (Inr v)
      note t = fm_get_title_precedence [OF Inr, of L link_text "fs_resolve fs path0"]
      show ?thesis
      proof (cases "fs_resolve fs path0 \<in> seen")
        case True
        from parse_md_truncated [OF Some pf Inr True, of m link_text] assms Suc
        have "nd = Node (fs_resolve fs path0)
                (node_title L v link_text (fs_resolve fs path0)) (markdown L body) []"
          and "seen' = seen" by simp_all
        with Some pf t True show ?thesis by simp
      next
        case False
        from parse_md_descends [OF Some pf Inr False, of m link_text] assms Suc
        have "\<exists>cs. nd = Node (fs_resolve fs path0)
                (node_title L v link_text (fs_resolve fs path0)) (markdown L body) cs"
          by (auto split: option.splits sum.splits prod.splits)
        with Some pf t False show ?thesis by auto
      qed
    qed
  qed
qed

lemma parse_md_None:
  assumes "parse_md n L fs path0 seen link_text = Some (Inr (None, seen'))"
  shows "read_file_text fs (fs_resolve fs path0) = None \<and> seen' = seen"
proof (cases n)
  case 0
  with assms show ?thesis by simp
next
  case (Suc m)
  show ?thesis
  proof (cases "read_file_text fs (fs_resolve fs path0)")
    case None
    from parse_md_unreadable [OF None] assms Suc show ?thesis using None by simp
  next
    case (Some src)
    obtain fm body where pf: "parse_frontmatter L src = (fm, body)"
      by (cases "parse_frontmatter L src")
    show ?thesis
    proof (cases "fm_get_title fm")
      case (Inl e)
      from parse_md_raises [OF Some pf Inl] assms Suc show ?thesis by simp
    next
      case (Inr v)
      show ?thesis
      proof (cases "fs_resolve fs path0 \<in> seen")
        case True
        from parse_md_truncated [OF Some pf Inr True, of m link_text] assms Suc
        show ?thesis by simp
      next
        case False
        from parse_md_descends [OF Some pf Inr False, of m link_text] assms Suc
        show ?thesis by (auto split: option.splits sum.splits prod.splits)
      qed
    qed
  qed
qed

subsection \<open>The title of a node\<close>

lemma py_str_PyStr: "py_str L (PyStr s) = s"
  by (simp add: py_str_def)

text \<open>Claim C2. Whenever \<open>parse_md\<close> returns a node for a document, the title of the node
  follows the precedence: with a valid \<open>title\<close> in the frontmatter (the frontmatter is a
  mapping, and the value of the field counts as true), the title is \<open>str\<close> of that value,
  the value itself for a string, whatever the label of the inbound link; otherwise, with a
  label (one that is not empty: the labels that the walker passes never are), the title is
  the label; otherwise it is the stem of the file name.\<close>

theorem title_precedence:
  "parse_md n L fs path0 seen link_text = Some (Inr (Some nd, seen')) \<and>
   read_file_text fs (fs_resolve fs path0) = Some src \<and>
   fm = fst (parse_frontmatter L src) \<longrightarrow>
     (\<forall>v. frontmatter_title fm = Some v \<longrightarrow>
        title nd = py_str L v \<and> (\<forall>s. v = PyStr s \<longrightarrow> title nd = s)) \<and>
     (frontmatter_title fm = None \<longrightarrow>
        (\<forall>l. link_text = Some l \<and> l \<noteq> [] \<longrightarrow> title nd = l) \<and>
        (link_text = None \<or> link_text = Some [] \<longrightarrow> title nd = stem (fs_resolve fs path0)))"
proof (intro impI)
  assume a: "parse_md n L fs path0 seen link_text = Some (Inr (Some nd, seen')) \<and>
   read_file_text fs (fs_resolve fs path0) = Some src \<and>
   fm = fst (parse_frontmatter L src)"
  with parse_md_node [of n L fs path0 seen link_text nd seen']
  have t: "title nd = title_by_precedence L fm link_text (fs_resolve fs path0)"
    by auto
  show "(\<forall>v. frontmatter_title fm = Some v \<longrightarrow>
        title nd = py_str L v \<and> (\<forall>s. v = PyStr s \<longrightarrow> title nd = s)) \<and>
     (frontmatter_title fm = None \<longrightarrow>
        (\<forall>l. link_text = Some l \<and> l \<noteq> [] \<longrightarrow> title nd = l) \<and>
        (link_text = None \<or> link_text = Some [] \<longrightarrow> title nd = stem (fs_resolve fs path0)))"
    unfolding t by (auto simp: title_by_precedence_def py_str_PyStr)
qed

theorem title_precedence_witness:
  "parse_md 1 example_lib fs_titled ''/docs/b.md'' {} (Some ''Foo'') =
     Some (Inr (Some (Node ''/docs/b.md'' ''Home'' ''<p>home</p>'' []), {''/docs/b.md''})) \<and>
   frontmatter_title (fst (parse_frontmatter example_lib ''---\<newline>title: Home\<newline>---\<newline>home'')) =
     Some (PyStr ''Home'') \<and>
   parse_md 1 example_lib fs_titled ''/docs/d.md'' {} (Some ''Baz'') =
     Some (Inr (Some (Node ''/docs/d.md'' ''Baz'' ''<p>mine</p>'' []), {''/docs/d.md''})) \<and>
   parse_md 1 example_lib fs_titled ''/docs/d.md'' {} None =
     Some (Inr (Some (Node ''/docs/d.md'' ''d'' ''<p>mine</p>'' []), {''/docs/d.md''})) \<and>
   frontmatter_title (fst (parse_frontmatter example_lib ''---\<newline>author: me\<newline>---\<newline>mine'')) = None \<and>
   title (Node ''/docs/b.md'' ''Home'' ''<p>home</p>'' []) = ''Home'' \<and>
   title (Node ''/docs/d.md'' ''Baz'' ''<p>mine</p>'' []) = ''Baz'' \<and>
   title (Node ''/docs/d.md'' ''d'' ''<p>mine</p>'' []) = stem ''/docs/d.md''"
proof -
  have rb: "read_file_text fs_titled (fs_resolve fs_titled ''/docs/b.md'') =
      Some ''---\<newline>title: Home\<newline>---\<newline>home''" by code_simp
  have rd: "read_file_text fs_titled (fs_resolve fs_titled ''/docs/d.md'') =
      Some ''---\<newline>author: me\<newline>---\<newline>mine''" by code_simp
  have res: "fs_resolve fs_titled ''/docs/d.md'' = ''/docs/d.md''" by code_simp
  have p1: "parse_md 1 example_lib fs_titled ''/docs/b.md'' {} (Some ''Foo'') =
     Some (Inr (Some (Node ''/docs/b.md'' ''Home'' ''<p>home</p>'' []), {''/docs/b.md''}))"
    by code_simp
  have f1: "frontmatter_title (fst (parse_frontmatter example_lib ''---\<newline>title: Home\<newline>---\<newline>home'')) =
     Some (PyStr ''Home'')" by code_simp
  have p2: "parse_md 1 example_lib fs_titled ''/docs/d.md'' {} (Some ''Baz'') =
     Some (Inr (Some (Node ''/docs/d.md'' ''Baz'' ''<p>mine</p>'' []), {''/docs/d.md''}))"
    by code_simp
  have p3: "parse_md 1 example_lib fs_titled ''/docs/d.md'' {} None =
     Some (Inr (Some (Node ''/docs/d.md'' ''d'' ''<p>mine</p>'' []), {''/docs/d.md''}))"
    by code_simp
  have f2: "frontmatter_title (fst (parse_frontmatter example_lib ''---\<newline>author: me\<newline>---\<newline>mine'')) = None"
    by code_simp
  from title_precedence [of 1 example_lib fs_titled "''/docs/b.md''" "{}" "Some ''Foo''" _ _
      "''---\<newline>title: Home\<newline>---\<newline>home''"] p1 rb f1
  have t1: "title (Node ''/docs/b.md'' ''Home'' ''<p>home</p>'' []) = ''Home''" by blast
  from title_precedence [of 1 example_lib fs_titled "''/docs/d.md''" "{}" "Some ''Baz''" _ _
      "''---\<newline>author: me\<newline>---\<newline>mine''"] p2 rd f2
  have t2: "title (Node ''/docs/d.md'' ''Baz'' ''<p>mine</p>'' []) = ''Baz''" by blast
  from title_precedence [of 1 example_lib fs_titled "''/docs/d.md''" "{}" None _ _
      "''---\<newline>author: me\<newline>---\<newline>mine''"] p3 rd f2 res
  have t3: "title (Node ''/docs/d.md'' ''d'' ''<p>mine</p>'' []) = stem ''/docs/d.md''" by metis
  from p1 f1 p2 p3 f2 t1 t2 t3 show ?thesis by blast
qed

subsection \<open>A frontmatter title that counts as false\<close>

text \<open>Claim C10. Where the frontmatter has the key \<open>title\<close> with a value that counts as
  false (the empty string, \<open>0\<close>, \<open>False\<close> and \<open>None\<close> are such values), the node that
  \<open>parse_md\<close> returns has the title it would have without the key: the inbound label, or
  the stem of the file name where there is no label. The truth value of the value decides,
  not the presence of the key.\<close>

theorem falsy_title_is_absent:
  "\<not> truthy (PyStr []) \<and> \<not> truthy (PyInt 0) \<and> \<not> truthy (PyBool False) \<and> \<not> truthy PyNone \<and>
   (parse_md n L fs path0 seen link_text = Some (Inr (Some nd, seen')) \<and>
    read_file_text fs (fs_resolve fs path0) = Some src \<and>
    fst (parse_frontmatter L src) = PyDict kvs \<and>
    map_of kvs (PyStr ''title'') = Some v \<and> \<not> truthy v \<longrightarrow>
      (\<forall>l. link_text = Some l \<and> l \<noteq> [] \<longrightarrow> title nd = l) \<and>
      (link_text = None \<or> link_text = Some [] \<longrightarrow> title nd = stem (fs_resolve fs path0)))"
proof -
  have "(\<forall>l. link_text = Some l \<and> l \<noteq> [] \<longrightarrow> title nd = l) \<and>
      (link_text = None \<or> link_text = Some [] \<longrightarrow> title nd = stem (fs_resolve fs path0))"
    if a: "parse_md n L fs path0 seen link_text = Some (Inr (Some nd, seen')) \<and>
      read_file_text fs (fs_resolve fs path0) = Some src \<and>
      fst (parse_frontmatter L src) = PyDict kvs \<and>
      map_of kvs (PyStr ''title'') = Some v \<and> \<not> truthy v"
  proof -
    from a parse_md_node [of n L fs path0 seen link_text nd seen']
    have t: "title nd = title_by_precedence L (PyDict kvs) link_text (fs_resolve fs path0)"
      by auto
    from a have f: "frontmatter_title (PyDict kvs) = None"
      by (simp add: frontmatter_title_def)
    show ?thesis
      unfolding t by (auto simp: title_by_precedence_def f)
  qed
  then show ?thesis by (simp del: split_paired_All) blast
qed

theorem falsy_title_is_absent_witness:
  "parse_md 1 example_lib fs_titled ''/docs/c.md'' {} (Some ''Bar'') =
     Some (Inr (Some (Node ''/docs/c.md'' ''Bar'' ''<p>zero</p>'' []), {''/docs/c.md''})) \<and>
   fst (parse_frontmatter example_lib ''---\<newline>title: 0\<newline>---\<newline>zero'') =
     PyDict [(PyStr ''title'', PyInt 0)] \<and>
   title (Node ''/docs/c.md'' ''Bar'' ''<p>zero</p>'' []) = ''Bar'' \<and>
   parse_md 1 example_lib fs_titled ''/docs/c.md'' {} None =
     Some (Inr (Some (Node ''/docs/c.md'' ''c'' ''<p>zero</p>'' []), {''/docs/c.md''})) \<and>
   title (Node ''/docs/c.md'' ''c'' ''<p>zero</p>'' []) = stem ''/docs/c.md''"
proof -
  have rc: "read_file_text fs_titled (fs_resolve fs_titled ''/docs/c.md'') =
      Some ''---\<newline>title: 0\<newline>---\<newline>zero''" by code_simp
  have res: "fs_resolve fs_titled ''/docs/c.md'' = ''/docs/c.md''" by code_simp
  have p1: "parse_md 1 example_lib fs_titled ''/docs/c.md'' {} (Some ''Bar'') =
     Some (Inr (Some (Node ''/docs/c.md'' ''Bar'' ''<p>zero</p>'' []), {''/docs/c.md''}))"
    by code_simp
  have p2: "parse_md 1 example_lib fs_titled ''/docs/c.md'' {} None =
     Some (Inr (Some (Node ''/docs/c.md'' ''c'' ''<p>zero</p>'' []), {''/docs/c.md''}))"
    by code_simp
  have f: "fst (parse_frontmatter example_lib ''---\<newline>title: 0\<newline>---\<newline>zero'') =
     PyDict [(PyStr ''title'', PyInt 0)]" by code_simp
  have m: "map_of [(PyStr ''title'', PyInt 0)] (PyStr ''title'') = Some (PyInt 0) \<and> \<not> truthy (PyInt 0)"
    by simp
  from falsy_title_is_absent [of 1 example_lib fs_titled "''/docs/c.md''" "{}" "Some ''Bar''" _ _
      "''---\<newline>title: 0\<newline>---\<newline>zero''" "[(PyStr ''title'', PyInt 0)]" "PyInt 0"] p1 rc f m
  have t1: "title (Node ''/docs/c.md'' ''Bar'' ''<p>zero</p>'' []) = ''Bar''" by blast
  from falsy_title_is_absent [of 1 example_lib fs_titled "''/docs/c.md''" "{}" None _ _
      "''---\<newline>title: 0\<newline>---\<newline>zero''" "[(PyStr ''title'', PyInt 0)]" "PyInt 0"] p2 rc f m res
  have t2: "title (Node ''/docs/c.md'' ''c'' ''<p>zero</p>'' []) = stem ''/docs/c.md''" by metis
  from p1 f t1 p2 t2 show ?thesis by blast
qed

subsection \<open>A file that cannot be read\<close>

lemma truthy_path_Some: "r \<noteq> [] \<Longrightarrow> truthy_path (Some r) = Some r"
  by (simp add: truthy_path_def)

text \<open>Claim C7, as stated, does not hold in one point: the content of the placeholder is
  not the text \<open>Could not load\<close> but that text in italics markup,
  \<open><i>Could not load</i>\<close>. \<open>/docs/a.md\<close> links to \<open>/docs/x.md\<close>, which exists and cannot
  be read.\<close>

theorem could_not_load_content_counterexample:
  "walk_links 1 example_lib fs_unreadable ''/docs/a.md'' [(''Gone'', ''x.md'')] {''/docs/a.md''} =
     Some (Inr ([Node ''/docs/x.md'' ''Gone'' ''<i>Could not load</i>'' []], {''/docs/a.md''})) \<and>
   content (Node ''/docs/x.md'' ''Gone'' ''<i>Could not load</i>'' []) \<noteq> ''Could not load''"
  by code_simp

text \<open>Claim C7, amended. \<open>parse_md\<close> returns \<open>None\<close> exactly when the file cannot be read:
  it returns \<open>None\<close>, with the visited set as it was, when \<open>_read_file_text\<close> fails, and
  every \<open>None\<close> it returns comes from there. Where the walk of a resolved child returns
  \<open>None\<close>, the parent appends the placeholder with the resolved path as id, the label (or,
  for an empty label, the stem of the resolved name) as title, the content
  \<open><i>Could not load</i>\<close> and no children, and goes on with the next link; no exception is
  raised for it.\<close>

theorem unreadable_file_placeholder:
  "(read_file_text fs (fs_resolve fs path0) = None \<longrightarrow>
      parse_md (Suc n) L fs path0 seen link_text = Some (Inr (None, seen))) \<and>
   (parse_md n L fs path0 seen link_text = Some (Inr (None, seen')) \<longrightarrow>
      read_file_text fs (fs_resolve fs path0) = None) \<and>
   (is_external_link L t = Inr False \<and> resolve_link L fs p t = Inr (Some r) \<and> r \<noteq> [] \<and>
    parse_md n L fs r seen (Some l) = Some (Inr (None, seen1)) \<longrightarrow>
      walk_links n L fs p ((l, t) # rest) seen =
        append_child (Node r (py_or l (stem r)) ''<i>Could not load</i>'' [])
          (walk_links n L fs p rest seen))"
proof -
  have a: "parse_md (Suc n) L fs path0 seen link_text = Some (Inr (None, seen))"
    if "read_file_text fs (fs_resolve fs path0) = None"
    using that by (rule parse_md_unreadable)
  have b: "read_file_text fs (fs_resolve fs path0) = None"
    if "parse_md n L fs path0 seen link_text = Some (Inr (None, seen'))"
    using parse_md_None [OF that] by simp
  have c: "walk_links n L fs p ((l, t) # rest) seen =
        append_child (Node r (py_or l (stem r)) ''<i>Could not load</i>'' [])
          (walk_links n L fs p rest seen)"
    if h: "is_external_link L t = Inr False \<and> resolve_link L fs p t = Inr (Some r) \<and> r \<noteq> [] \<and>
      parse_md n L fs r seen (Some l) = Some (Inr (None, seen1))"
  proof -
    from h have e: "is_external_link L t = Inr False" and rs: "resolve_link L fs p t = Inr (Some r)"
      and tp: "truthy_path (Some r) = Some r"
      and pm: "parse_md n L fs r seen (Some l) = Some (Inr (None, seen1))"
      by (simp_all add: truthy_path_Some)
    from parse_md_None [OF pm] have "seen1 = seen" by simp
    with walk_links_resolved [OF e rs tp, of n l rest seen] pm show ?thesis
      by (simp add: could_not_load_node_def)
  qed
  from a b c show ?thesis by blast
qed

theorem unreadable_file_placeholder_witness:
  "parse_md 1 example_lib fs_unreadable ''/docs/x.md'' {''/docs/a.md''} (Some ''Gone'') =
     Some (Inr (None, {''/docs/a.md''})) \<and>
   read_file_text fs_unreadable (fs_resolve fs_unreadable ''/docs/x.md'') = None \<and>
   walk_links 1 example_lib fs_unreadable ''/docs/a.md'' [(''Gone'', ''x.md'')] {''/docs/a.md''} =
     Some (Inr ([Node ''/docs/x.md'' ''Gone'' ''<i>Could not load</i>'' []], {''/docs/a.md''}))"
proof -
  have r: "read_file_text fs_unreadable (fs_resolve fs_unreadable ''/docs/x.md'') = None"
    by code_simp
  note t0 = unreadable_file_placeholder [where fs = fs_unreadable and ?path0.0 = "''/docs/x.md''"
      and n = 0 and L = example_lib and seen = "{''/docs/a.md''}" and link_text = "Some ''Gone''"]
  note t = unreadable_file_placeholder [where fs = fs_unreadable and n = 1 and L = example_lib
      and seen = "{''/docs/a.md''}" and t = "''x.md''" and p = "''/docs/a.md''"
      and r = "''/docs/x.md''" and l = "''Gone''" and ?seen1.0 = "{''/docs/a.md''}" and rest = "[]"]
  from t0 r have p: "parse_md 1 example_lib fs_unreadable ''/docs/x.md'' {''/docs/a.md''} (Some ''Gone'') =
     Some (Inr (None, {''/docs/a.md''}))" by simp
  have e: "is_external_link example_lib ''x.md'' = Inr False" by code_simp
  have rs: "resolve_link example_lib fs_unreadable ''/docs/a.md'' ''x.md'' = Inr (Some ''/docs/x.md'')"
    by code_simp
  have po: "py_or ''Gone'' (stem ''/docs/x.md'') = ''Gone''" by (simp add: py_or_def)
  from t e rs p
  have "walk_links 1 example_lib fs_unreadable ''/docs/a.md'' [(''Gone'', ''x.md'')] {''/docs/a.md''} =
        append_child (Node ''/docs/x.md'' (py_or ''Gone'' (stem ''/docs/x.md'')) ''<i>Could not load</i>'' [])
          (walk_links 1 example_lib fs_unreadable ''/docs/a.md'' [] {''/docs/a.md''})"
    by simp
  then have w: "walk_links 1 example_lib fs_unreadable ''/docs/a.md'' [(''Gone'', ''x.md'')] {''/docs/a.md''} =
     Some (Inr ([Node ''/docs/x.md'' ''Gone'' ''<i>Could not load</i>'' []], {''/docs/a.md''}))"
    by (simp add: po append_child_def)
  from p r w show ?thesis by blast
qed

subsection \<open>The title of a truncated node\<close>

text \<open>Claim C3, as stated, does not hold. \<open>/docs/a.md\<close> links to \<open>/docs/b.md\<close> twice, as
  \<open>Foo\<close> and as \<open>Bar\<close>, and \<open>/docs/b.md\<close> has no frontmatter: the first occurrence is
  expanded under the title \<open>Foo\<close>, and the truncated second occurrence has the title \<open>Bar\<close>,
  the label of the link that led to it. In the cycle of \<open>/docs/a.md\<close> and \<open>/docs/b.md\<close> the
  root has the title \<open>a\<close>, its stem, and its truncated occurrence below \<open>/docs/b.md\<close> has
  the title \<open>A\<close>, the label of the link back.\<close>

theorem first_seen_title_counterexample:
  "parse_md 2 example_lib fs_two_labels ''/docs/a.md'' {} None =
     Some (Inr (Some (Node ''/docs/a.md'' ''a'' ''<p>[Foo](b.md) and [Bar](b.md)</p>''
                   [Node ''/docs/b.md'' ''Foo'' ''<p>leaf</p>'' [],
                    Node ''/docs/b.md'' ''Bar'' ''<p>leaf</p>'' []]),
                {''/docs/b.md'', ''/docs/a.md''})) \<and>
   title (Node ''/docs/b.md'' ''Bar'' ''<p>leaf</p>'' []) \<noteq>
     title (Node ''/docs/b.md'' ''Foo'' ''<p>leaf</p>'' []) \<and>
   parse_md 3 example_lib fs_cycle ''/docs/a.md'' {} None =
     Some (Inr (Some (Node ''/docs/a.md'' ''a'' ''<p>[B](b.md)</p>''
                   [Node ''/docs/b.md'' ''B'' ''<p>[A](a.md)</p>''
                      [Node ''/docs/a.md'' ''A'' ''<p>[B](b.md)</p>'' []]]),
                {''/docs/b.md'', ''/docs/a.md''})) \<and>
   title (Node ''/docs/a.md'' ''A'' ''<p>[B](b.md)</p>'' []) \<noteq>
     title (Node ''/docs/a.md'' ''a'' ''<p>[B](b.md)</p>''
              [Node ''/docs/b.md'' ''B'' ''<p>[A](a.md)</p>''
                 [Node ''/docs/a.md'' ''A'' ''<p>[B](b.md)</p>'' []]])"
  by code_simp

text \<open>Claim C3, amended. A node that \<open>parse_md\<close> returns for a file that is already in the
  visited set has the id of every other occurrence of the file, no children, and leaves
  the visited set as it is. Its title follows the precedence of every node: it is the title
  of the other occurrence where the frontmatter of the file has a valid title, and
  otherwise it is the label of the link that led to this occurrence.\<close>

theorem truncated_node_title:
  "parse_md n1 L fs path1 seen1 lt1 = Some (Inr (Some nd1, s1)) \<and>
   parse_md n2 L fs path2 seen2 lt2 = Some (Inr (Some nd2, s2)) \<and>
   fs_resolve fs path1 = fs_resolve fs path2 \<and> fs_resolve fs path2 \<in> seen2 \<and>
   read_file_text fs (fs_resolve fs path2) = Some src \<longrightarrow>
     node_id nd2 = node_id nd1 \<and> children nd2 = [] \<and> s2 = seen2 \<and>
     (frontmatter_title (fst (parse_frontmatter L src)) \<noteq> None \<longrightarrow> title nd2 = title nd1) \<and>
     (frontmatter_title (fst (parse_frontmatter L src)) = None \<longrightarrow>
        (\<forall>l. lt2 = Some l \<and> l \<noteq> [] \<longrightarrow> title nd2 = l))"
proof (intro impI)
  assume a: "parse_md n1 L fs path1 seen1 lt1 = Some (Inr (Some nd1, s1)) \<and>
   parse_md n2 L fs path2 seen2 lt2 = Some (Inr (Some nd2, s2)) \<and>
   fs_resolve fs path1 = fs_resolve fs path2 \<and> fs_resolve fs path2 \<in> seen2 \<and>
   read_file_text fs (fs_resolve fs path2) = Some src"
  define fm where "fm = fst (parse_frontmatter L src)"
  from a parse_md_node [of n1 L fs path1 seen1 lt1 nd1 s1]
  have n1: "node_id nd1 = fs_resolve fs path2"
    "title nd1 = title_by_precedence L fm lt1 (fs_resolve fs path2)"
    by (auto simp: fm_def)
  from a parse_md_node [of n2 L fs path2 seen2 lt2 nd2 s2]
  have n2: "node_id nd2 = fs_resolve fs path2"
    "title nd2 = title_by_precedence L fm lt2 (fs_resolve fs path2)"
    "children nd2 = []" "s2 = seen2"
    by (auto simp: fm_def)
  have "frontmatter_title fm \<noteq> None \<longrightarrow> title nd2 = title nd1"
    unfolding n1 n2 by (auto simp: title_by_precedence_def)
  moreover have "frontmatter_title fm = None \<longrightarrow> (\<forall>l. lt2 = Some l \<and> l \<noteq> [] \<longrightarrow> title nd2 = l)"
    unfolding n2 by (auto simp: title_by_precedence_def)
  ultimately show "node_id nd2 = node_id nd1 \<and> children nd2 = [] \<and> s2 = seen2 \<and>
     (frontmatter_title (fst (parse_frontmatter L src)) \<noteq> None \<longrightarrow> title nd2 = title nd1) \<and>
     (frontmatter_title (fst (parse_frontmatter L src)) = None \<longrightarrow>
        (\<forall>l. lt2 = Some l \<and> l \<noteq> [] \<longrightarrow> title nd2 = l))"
    using n1 n2 by (simp add: fm_def)
qed

theorem truncated_node_title_witness:
  "parse_md 1 example_lib fs_two_labels ''/docs/b.md'' {''/docs/a.md''} (Some ''Foo'') =
     Some (Inr (Some (Node ''/docs/b.md'' ''Foo'' ''<p>leaf</p>'' []), {''/docs/b.md'', ''/docs/a.md''})) \<and>
   parse_md 1 example_lib fs_two_labels ''/docs/b.md'' {''/docs/b.md'', ''/docs/a.md''} (Some ''Bar'') =
     Some (Inr (Some (Node ''/docs/b.md'' ''Bar'' ''<p>leaf</p>'' []), {''/docs/b.md'', ''/docs/a.md''})) \<and>
   frontmatter_title (fst (parse_frontmatter example_lib ''leaf'')) = None \<and>
   title (Node ''/docs/b.md'' ''Bar'' ''<p>leaf</p>'' []) = ''Bar'' \<and>
   parse_md 1 example_lib fs_titled ''/docs/b.md'' {} (Some ''Foo'') =
     Some (Inr (Some (Node ''/docs/b.md'' ''Home'' ''<p>home</p>'' []), {''/docs/b.md''})) \<and>
   parse_md 1 example_lib fs_titled ''/docs/b.md'' {''/docs/b.md''} (Some ''Bar'') =
     Some (Inr (Some (Node ''/docs/b.md'' ''Home'' ''<p>home</p>'' []), {''/docs/b.md''})) \<and>
   frontmatter_title (fst (parse_frontmatter example_lib ''---\<newline>title: Home\<newline>---\<newline>home'')) \<noteq> None"
proof -
  have p1: "parse_md 1 example_lib fs_two_labels ''/docs/b.md'' {''/docs/a.md''} (Some ''Foo'') =
     Some (Inr (Some (Node ''/docs/b.md'' ''Foo'' ''<p>leaf</p>'' []), {''/docs/b.md'', ''/docs/a.md''}))"
    by code_simp
  have p2: "parse_md 1 example_lib fs_two_labels ''/docs/b.md'' {''/docs/b.md'', ''/docs/a.md''} (Some ''Bar'') =
     Some (Inr (Some (Node ''/docs/b.md'' ''Bar'' ''<p>leaf</p>'' []), {''/docs/b.md'', ''/docs/a.md''}))"
    by code_simp
  have h: "fs_resolve fs_two_labels ''/docs/b.md'' = fs_resolve fs_two_labels ''/docs/b.md'' \<and>
      fs_resolve fs_two_labels ''/docs/b.md'' \<in> {''/docs/b.md'', ''/docs/a.md''} \<and>
      read_file_text fs_two_labels (fs_resolve fs_two_labels ''/docs/b.md'') = Some ''leaf''"
    by code_simp
  have f: "frontmatter_title (fst (parse_frontmatter example_lib ''leaf'')) = None"
    by code_simp
  from truncated_node_title [where ?n1.0 = 1 and L = example_lib and fs = fs_two_labels
      and ?path1.0 = "''/docs/b.md''" and ?seen1.0 = "{''/docs/a.md''}" and ?lt1.0 = "Some ''Foo''"
      and ?n2.0 = 1 and ?path2.0 = "''/docs/b.md''" and ?seen2.0 = "{''/docs/b.md'', ''/docs/a.md''}"
      and ?lt2.0 = "Some ''Bar''" and src = "''leaf''"] p1 p2 h f
  have t1: "title (Node ''/docs/b.md'' ''Bar'' ''<p>leaf</p>'' []) = ''Bar''"
    by blast
  have q1: "parse_md 1 example_lib fs_titled ''/docs/b.md'' {} (Some ''Foo'') =
     Some (Inr (Some (Node ''/docs/b.md'' ''Home'' ''<p>home</p>'' []), {''/docs/b.md''}))"
    by code_simp
  have q2: "parse_md 1 example_lib fs_titled ''/docs/b.md'' {''/docs/b.md''} (Some ''Bar'') =
     Some (Inr (Some (Node ''/docs/b.md'' ''Home'' ''<p>home</p>'' []), {''/docs/b.md''}))"
    by code_simp
  have g: "frontmatter_title (fst (parse_frontmatter example_lib ''---\<newline>title: Home\<newline>---\<newline>home'')) \<noteq> None"
    by code_simp
  from q1 q2 p1 p2 f t1 g show ?thesis by simp
qed

subsection \<open>The visited set grows, and the walk returns\<close>

lemma append_child_None: "append_child c r = None \<longleftrightarrow> r = None"
  by (auto simp: append_child_def split: option.splits sum.splits)

lemma append_child_Inr:
  "append_child c r = Some (Inr (cs, s)) \<Longrightarrow> \<exists>cs'. r = Some (Inr (cs', s))"
  by (auto simp: append_child_def split: option.splits sum.splits)

lemma walk_links_seen_grows:
  assumes pm: "\<forall>r seen l child seen1.
      parse_md n L fs r seen l = Some (Inr (child, seen1)) \<longrightarrow> seen \<subseteq> seen1"
  shows "walk_links n L fs p links seen = Some (Inr (cs, seen')) \<Longrightarrow> seen \<subseteq> seen'"
proof (induction links arbitrary: seen cs)
  case Nil
  then show ?case by simp
next
  case (Cons lt rest)
  obtain l t where lt: "lt = (l, t)" by (cases lt)
  note w = Cons.prems [unfolded lt]
  show ?case
  proof (cases "is_external_link L t")
    case (Inl e)
    from walk_links_raises [OF Inl] w show ?thesis by simp
  next
    case (Inr b)
    show ?thesis
    proof (cases b)
      case True
      with Inr have e: "is_external_link L t = Inr True" by simp
      from w walk_links_external [OF e, of n fs p l rest seen]
      obtain cs' where "walk_links n L fs p rest seen = Some (Inr (cs', seen'))"
        using append_child_Inr by metis
      from Cons.IH [OF this] show ?thesis .
    next
      case False
      with Inr have e: "is_external_link L t = Inr False" by simp
      show ?thesis
      proof (cases "resolve_link L fs p t")
        case (Inl x)
        from walk_links_resolve_raises [OF e Inl] w show ?thesis by simp
      next
        case (Inr resolved)
        note rs = Inr
        show ?thesis
        proof (cases "truthy_path resolved")
          case None
          from w walk_links_unresolved [OF e rs None, of n l rest seen]
          obtain cs' where "walk_links n L fs p rest seen = Some (Inr (cs', seen'))"
            using append_child_Inr by metis
          from Cons.IH [OF this] show ?thesis .
        next
          case (Some r)
          note step = walk_links_resolved [OF e rs Some, of n l rest seen]
          show ?thesis
          proof (cases "parse_md n L fs r seen (Some l)")
            case None
            with step w show ?thesis by simp
          next
            case (Some out)
            note o = Some
            show ?thesis
            proof (cases out)
              case (Inl x)
              with step w o show ?thesis by simp
            next
              case (Inr res)
              obtain child seen1 where res: "res = (child, seen1)" by (cases res)
              from o Inr res have pmr: "parse_md n L fs r seen (Some l) = Some (Inr (child, seen1))"
                by simp
              with pm have g: "seen \<subseteq> seen1" by blast
              from step w pmr
              obtain cs' where "walk_links n L fs p rest seen1 = Some (Inr (cs', seen'))"
                using append_child_Inr by (metis (no_types, lifting) option.simps(5) sum.simps(6) old.prod.case)
              from Cons.IH [OF this] g show ?thesis by blast
            qed
          qed
        qed
      qed
    qed
  qed
qed

lemma parse_md_descends_Inr:
  assumes d: "parse_md (Suc n) L fs path0 seen link_text =
     (case w of
        None \<Rightarrow> None
      | Some (Inl e) \<Rightarrow> Some (Inl e)
      | Some (Inr (cs, seen')) \<Rightarrow> Some (Inr (Some (Node i t c cs), seen')))"
    and r: "parse_md (Suc n) L fs path0 seen link_text = Some (Inr (res, s))"
  shows "\<exists>cs. w = Some (Inr (cs, s)) \<and> res = Some (Node i t c cs)"
proof (cases w)
  case None
  with d r show ?thesis by simp
next
  case (Some out)
  show ?thesis
  proof (cases out)
    case (Inl e)
    with Some d r show ?thesis by simp
  next
    case (Inr x)
    obtain cs s1 where "x = (cs, s1)" by (cases x)
    with Some Inr d r show ?thesis by simp
  qed
qed

lemma parse_md_seen_grows:
  "parse_md n L fs path0 seen link_text = Some (Inr (res, seen')) \<Longrightarrow> seen \<subseteq> seen'"
proof (induction n arbitrary: path0 seen link_text res seen')
  case 0
  then show ?case by simp
next
  case (Suc n)
  have ih: "\<forall>r seen l child seen1.
      parse_md n L fs r seen l = Some (Inr (child, seen1)) \<longrightarrow> seen \<subseteq> seen1"
    using Suc.IH by blast
  show ?case
  proof (cases "read_file_text fs (fs_resolve fs path0)")
    case None
    from parse_md_unreadable [OF None] Suc.prems show ?thesis by simp
  next
    case (Some src)
    obtain fm body where pf: "parse_frontmatter L src = (fm, body)"
      by (cases "parse_frontmatter L src")
    show ?thesis
    proof (cases "fm_get_title fm")
      case (Inl e)
      from parse_md_raises [OF Some pf Inl] Suc.prems show ?thesis by simp
    next
      case (Inr v)
      show ?thesis
      proof (cases "fs_resolve fs path0 \<in> seen")
        case True
        from parse_md_truncated [OF Some pf Inr True, of n link_text] Suc.prems
        show ?thesis by simp
      next
        case False
        from parse_md_descends_Inr [OF parse_md_descends [OF Some pf Inr False] Suc.prems]
        obtain cs where "walk_links n L fs (fs_resolve fs path0) (extract_links body)
             (insert (fs_resolve fs path0) seen) = Some (Inr (cs, seen'))"
          by blast
        from walk_links_seen_grows [OF ih this] show ?thesis by blast
      qed
    qed
  qed
qed

text \<open>The files that can be read, and how many of them are not yet in the visited set: the
  bound on the depth of the recursion.\<close>

lemma readable_in_files:
  "read_file_text fs p = Some src \<Longrightarrow> p \<in> fst ` set (fs_files fs)"
  unfolding read_file_text_def by (metis map_of_SomeD image_eqI fst_conv)

lemma unvisited_insert:
  assumes "p \<in> fst ` set (fs_files fs)" "p \<notin> seen"
    and "card (fst ` set (fs_files fs) - seen) < Suc n"
  shows "card (fst ` set (fs_files fs) - insert p seen) < n"
proof -
  let ?F = "fst ` set (fs_files fs)"
  have fin: "finite (?F - seen)" by simp
  from assms have pin: "p \<in> ?F - seen" by simp
  have eq: "?F - insert p seen = (?F - seen) - {p}" by blast
  from fin pin have "card ((?F - seen) - {p}) < card (?F - seen)"
    by (rule card_Diff1_less)
  with eq assms(3) show ?thesis by simp
qed

lemma unvisited_mono:
  "seen \<subseteq> seen1 \<Longrightarrow> card (fst ` set (fs_files fs) - seen1) \<le> card (fst ` set (fs_files fs) - seen)"
  by (rule card_mono) auto

lemma walk_links_returns:
  assumes pm: "\<forall>r seen l. card (fst ` set (fs_files fs) - seen) < n \<longrightarrow>
      parse_md n L fs r seen l \<noteq> None"
  shows "card (fst ` set (fs_files fs) - seen) < n \<Longrightarrow> walk_links n L fs p links seen \<noteq> None"
proof (induction links arbitrary: seen)
  case Nil
  show ?case by simp
next
  case (Cons lt rest)
  obtain l t where lt: "lt = (l, t)" by (cases lt)
  show ?case unfolding lt
  proof (cases "is_external_link L t")
    case (Inl e)
    from walk_links_raises [OF Inl] show "walk_links n L fs p ((l, t) # rest) seen \<noteq> None"
      by simp
  next
    case (Inr b)
    show "walk_links n L fs p ((l, t) # rest) seen \<noteq> None"
    proof (cases b)
      case True
      with Inr have e: "is_external_link L t = Inr True" by simp
      from walk_links_external [OF e, of n fs p l rest seen] Cons.IH [OF Cons.prems]
      show ?thesis by (simp add: append_child_None)
    next
      case False
      with Inr have e: "is_external_link L t = Inr False" by simp
      show ?thesis
      proof (cases "resolve_link L fs p t")
        case (Inl x)
        from walk_links_resolve_raises [OF e Inl] show ?thesis by simp
      next
        case (Inr resolved)
        note rs = Inr
        show ?thesis
        proof (cases "truthy_path resolved")
          case None
          from walk_links_unresolved [OF e rs None, of n l rest seen] Cons.IH [OF Cons.prems]
          show ?thesis by (simp add: append_child_None)
        next
          case (Some r)
          note step = walk_links_resolved [OF e rs Some, of n l rest seen]
          from pm Cons.prems have "parse_md n L fs r seen (Some l) \<noteq> None" by blast
          then obtain out where o: "parse_md n L fs r seen (Some l) = Some out" by blast
          show ?thesis
          proof (cases out)
            case (Inl x)
            with step o show ?thesis by simp
          next
            case (Inr res)
            obtain child seen1 where res: "res = (child, seen1)" by (cases res)
            from o Inr res have pmr: "parse_md n L fs r seen (Some l) = Some (Inr (child, seen1))"
              by simp
            from parse_md_seen_grows [OF pmr] have "seen \<subseteq> seen1" .
            from unvisited_mono [OF this, of fs] Cons.prems
            have "card (fst ` set (fs_files fs) - seen1) < n" by linarith
            from Cons.IH [OF this] step pmr show ?thesis
              by (simp add: append_child_None)
          qed
        qed
      qed
    qed
  qed
qed

lemma parse_md_returns:
  "card (fst ` set (fs_files fs) - seen) < n \<Longrightarrow> parse_md n L fs path0 seen link_text \<noteq> None"
proof (induction n arbitrary: path0 seen link_text)
  case 0
  then show ?case by simp
next
  case (Suc n)
  have ih: "\<forall>r seen l. card (fst ` set (fs_files fs) - seen) < n \<longrightarrow>
      parse_md n L fs r seen l \<noteq> None"
    using Suc.IH by blast
  show ?case
  proof (cases "read_file_text fs (fs_resolve fs path0)")
    case None
    from parse_md_unreadable [OF None] show ?thesis by simp
  next
    case (Some src)
    obtain fm body where pf: "parse_frontmatter L src = (fm, body)"
      by (cases "parse_frontmatter L src")
    show ?thesis
    proof (cases "fm_get_title fm")
      case (Inl e)
      from parse_md_raises [OF Some pf Inl] show ?thesis by simp
    next
      case (Inr v)
      note ft = Inr
      show ?thesis
      proof (cases "fs_resolve fs path0 \<in> seen")
        case True
        from parse_md_truncated [OF Some pf ft True, of n link_text] show ?thesis by simp
      next
        case False
        from unvisited_insert [OF readable_in_files [OF Some] False Suc.prems]
        have "card (fst ` set (fs_files fs) - insert (fs_resolve fs path0) seen) < n" .
        from walk_links_returns [OF ih this]
        have "walk_links n L fs (fs_resolve fs path0) (extract_links body)
            (insert (fs_resolve fs path0) seen) \<noteq> None" .
        then obtain out where w: "walk_links n L fs (fs_resolve fs path0) (extract_links body)
            (insert (fs_resolve fs path0) seen) = Some out" by blast
        show ?thesis
        proof (cases out)
          case (Inl e)
          with w parse_md_descends [OF Some pf ft False, of n link_text] show ?thesis by simp
        next
          case (Inr x)
          obtain cs s1 where "x = (cs, s1)" by (cases x)
          with Inr w parse_md_descends [OF Some pf ft False, of n link_text] show ?thesis by simp
        qed
      qed
    qed
  qed
qed

lemma enough_fuel: "card (fst ` set (fs_files fs) - seen) < Suc (length (fs_files fs))"
proof -
  have "card (fst ` set (fs_files fs) - seen) \<le> card (fst ` set (fs_files fs))"
    by (rule card_mono) auto
  also have "\<dots> \<le> card (set (fs_files fs))" by (rule card_image_le) simp
  also have "\<dots> \<le> length (fs_files fs)" by (rule card_length)
  finally show ?thesis by simp
qed

text \<open>More fuel does not change a result.\<close>

lemma walk_links_more_fuel:
  assumes pm: "\<forall>r seen l. parse_md n L fs r seen l \<noteq> None \<longrightarrow>
      parse_md (Suc n) L fs r seen l = parse_md n L fs r seen l"
  shows "walk_links n L fs p links seen \<noteq> None \<Longrightarrow>
    walk_links (Suc n) L fs p links seen = walk_links n L fs p links seen"
proof (induction links arbitrary: seen)
  case Nil
  show ?case by simp
next
  case (Cons lt rest)
  obtain l t where lt: "lt = (l, t)" by (cases lt)
  note w = Cons.prems [unfolded lt]
  show ?case unfolding lt
  proof (cases "is_external_link L t")
    case (Inl e)
    from walk_links_raises [OF Inl]
    show "walk_links (Suc n) L fs p ((l, t) # rest) seen = walk_links n L fs p ((l, t) # rest) seen"
      by simp
  next
    case (Inr b)
    show "walk_links (Suc n) L fs p ((l, t) # rest) seen = walk_links n L fs p ((l, t) # rest) seen"
    proof (cases b)
      case True
      with Inr have e: "is_external_link L t = Inr True" by simp
      from w walk_links_external [OF e, of n fs p l rest seen]
      have "walk_links n L fs p rest seen \<noteq> None" by (simp add: append_child_None)
      from Cons.IH [OF this] walk_links_external [OF e] show ?thesis by simp
    next
      case False
      with Inr have e: "is_external_link L t = Inr False" by simp
      show ?thesis
      proof (cases "resolve_link L fs p t")
        case (Inl x)
        from walk_links_resolve_raises [OF e Inl] show ?thesis by simp
      next
        case (Inr resolved)
        note rs = Inr
        show ?thesis
        proof (cases "truthy_path resolved")
          case None
          from w walk_links_unresolved [OF e rs None, of n l rest seen]
          have "walk_links n L fs p rest seen \<noteq> None" by (simp add: append_child_None)
          from Cons.IH [OF this] walk_links_unresolved [OF e rs None] show ?thesis by simp
        next
          case (Some r)
          note step = walk_links_resolved [OF e rs Some]
          show ?thesis
          proof (cases "parse_md n L fs r seen (Some l)")
            case None
            with step [of n l rest seen] w show ?thesis by simp
          next
            case (Some out)
            with pm have up: "parse_md (Suc n) L fs r seen (Some l) = Some out" by simp
            show ?thesis
            proof (cases out)
              case (Inl x)
              with Some up step [of n l rest seen] step [of "Suc n" l rest seen]
              show ?thesis by simp
            next
              case (Inr res)
              obtain child seen1 where res: "res = (child, seen1)" by (cases res)
              from w step [of n l rest seen] Some Inr res
              have "walk_links n L fs p rest seen1 \<noteq> None" by (simp add: append_child_None)
              from Cons.IH [OF this] Some up Inr res step [of n l rest seen]
                step [of "Suc n" l rest seen]
              show ?thesis by simp
            qed
          qed
        qed
      qed
    qed
  qed
qed

lemma parse_md_more_fuel:
  "parse_md n L fs path0 seen link_text \<noteq> None \<Longrightarrow>
   parse_md (Suc n) L fs path0 seen link_text = parse_md n L fs path0 seen link_text"
proof (induction n arbitrary: path0 seen link_text)
  case 0
  then show ?case by simp
next
  case (Suc n)
  have ih: "\<forall>r seen l. parse_md n L fs r seen l \<noteq> None \<longrightarrow>
      parse_md (Suc n) L fs r seen l = parse_md n L fs r seen l"
    using Suc.IH by blast
  show ?case
  proof (cases "read_file_text fs (fs_resolve fs path0)")
    case None
    from parse_md_unreadable [OF None] show ?thesis by simp
  next
    case (Some src)
    obtain fm body where pf: "parse_frontmatter L src = (fm, body)"
      by (cases "parse_frontmatter L src")
    show ?thesis
    proof (cases "fm_get_title fm")
      case (Inl e)
      from parse_md_raises [OF Some pf Inl] show ?thesis by simp
    next
      case (Inr v)
      note ft = Inr
      show ?thesis
      proof (cases "fs_resolve fs path0 \<in> seen")
        case True
        from parse_md_truncated [OF Some pf ft True] show ?thesis by simp
      next
        case False
        note d = parse_md_descends [OF Some pf ft False]
        have "walk_links n L fs (fs_resolve fs path0) (extract_links body)
            (insert (fs_resolve fs path0) seen) \<noteq> None"
        proof
          assume "walk_links n L fs (fs_resolve fs path0) (extract_links body)
            (insert (fs_resolve fs path0) seen) = None"
          with d [of n link_text] have "parse_md (Suc n) L fs path0 seen link_text = None"
            by simp
          with Suc.prems show False by simp
        qed
        from walk_links_more_fuel [OF ih this]
        have "walk_links (Suc n) L fs (fs_resolve fs path0) (extract_links body)
            (insert (fs_resolve fs path0) seen) =
          walk_links n L fs (fs_resolve fs path0) (extract_links body)
            (insert (fs_resolve fs path0) seen)" .
        then show ?thesis
          by (simp only: d [of n link_text] d [of "Suc n" link_text])
      qed
    qed
  qed
qed

lemma parse_md_fuel_irrelevant:
  "parse_md n L fs path0 seen link_text \<noteq> None \<Longrightarrow>
   parse_md (n + k) L fs path0 seen link_text = parse_md n L fs path0 seen link_text"
proof (induction k)
  case 0
  show ?case by simp
next
  case (Suc k)
  from Suc have "parse_md (n + k) L fs path0 seen link_text \<noteq> None" by simp
  from parse_md_more_fuel [OF this] Suc show ?case by simp
qed

subsection \<open>Termination on every link graph\<close>

text \<open>Claim C1. \<open>parse_md\<close> terminates on every library, file system, path and visited
  set, so on every link graph, cyclic or not: a fuel of one more than the number of files
  is enough for it to return (a node, \<open>None\<close> or an exception), and more fuel does not
  change what it returns. Where the canonical path of the file is already in the visited
  set, one unit of fuel is enough, which allows no nested call of \<open>parse_md\<close>: a file that
  is read, with a frontmatter that has \<open>get\<close>, gives its node at once, with no children and
  the visited set as it was.\<close>

theorem parse_md_terminates:
  "(\<exists>r. parse_md (Suc (length (fs_files fs))) L fs path0 seen link_text = Some r \<and>
        (\<forall>k. parse_md (Suc (length (fs_files fs)) + k) L fs path0 seen link_text = Some r)) \<and>
   (fs_resolve fs path0 \<in> seen \<longrightarrow>
      (\<exists>r. parse_md (Suc 0) L fs path0 seen link_text = Some r \<and>
           (\<forall>n. parse_md (Suc n) L fs path0 seen link_text = Some r))) \<and>
   (fs_resolve fs path0 \<in> seen \<and> read_file_text fs (fs_resolve fs path0) = Some src \<and>
    fm_get_title (fst (parse_frontmatter L src)) = Inr fm_title \<longrightarrow>
      parse_md (Suc n) L fs path0 seen link_text =
        Some (Inr (Some (Node (fs_resolve fs path0)
                     (node_title L fm_title link_text (fs_resolve fs path0))
                     (markdown L (snd (parse_frontmatter L src))) []), seen)))"
proof -
  have a: "\<exists>r. parse_md (Suc (length (fs_files fs))) L fs path0 seen link_text = Some r \<and>
        (\<forall>k. parse_md (Suc (length (fs_files fs)) + k) L fs path0 seen link_text = Some r)"
  proof -
    from parse_md_returns [OF enough_fuel]
    have nn: "parse_md (Suc (length (fs_files fs))) L fs path0 seen link_text \<noteq> None" .
    then obtain r where r: "parse_md (Suc (length (fs_files fs))) L fs path0 seen link_text = Some r"
      by blast
    from parse_md_fuel_irrelevant [OF nn] r
    have "\<forall>k. parse_md (Suc (length (fs_files fs)) + k) L fs path0 seen link_text = Some r"
      by simp
    with r show ?thesis by blast
  qed
  have b: "\<exists>r. parse_md (Suc 0) L fs path0 seen link_text = Some r \<and>
           (\<forall>n. parse_md (Suc n) L fs path0 seen link_text = Some r)"
    if s: "fs_resolve fs path0 \<in> seen"
  proof (cases "read_file_text fs (fs_resolve fs path0)")
    case None
    from parse_md_unreadable [OF None] show ?thesis by blast
  next
    case (Some src')
    obtain fm body where pf: "parse_frontmatter L src' = (fm, body)"
      by (cases "parse_frontmatter L src'")
    show ?thesis
    proof (cases "fm_get_title fm")
      case (Inl e)
      from parse_md_raises [OF Some pf Inl] show ?thesis by blast
    next
      case (Inr v)
      from parse_md_truncated [OF Some pf Inr s] show ?thesis by blast
    qed
  qed
  have c: "parse_md (Suc n) L fs path0 seen link_text =
        Some (Inr (Some (Node (fs_resolve fs path0)
                     (node_title L fm_title link_text (fs_resolve fs path0))
                     (markdown L (snd (parse_frontmatter L src))) []), seen))"
    if h: "fs_resolve fs path0 \<in> seen \<and> read_file_text fs (fs_resolve fs path0) = Some src \<and>
      fm_get_title (fst (parse_frontmatter L src)) = Inr fm_title"
  proof -
    obtain fm body where pf: "parse_frontmatter L src = (fm, body)"
      by (cases "parse_frontmatter L src")
    with h have "read_file_text fs (fs_resolve fs path0) = Some src" "fm_get_title fm = Inr fm_title"
      "fs_resolve fs path0 \<in> seen" by simp_all
    from parse_md_truncated [OF this(1) pf this(2) this(3)] pf show ?thesis by simp
  qed
  from a b c show ?thesis by blast
qed

theorem parse_md_terminates_witness:
  "parse_md 3 example_lib fs_cycle ''/docs/a.md'' {} None =
     Some (Inr (Some (Node ''/docs/a.md'' ''a'' ''<p>[B](b.md)</p>''
                   [Node ''/docs/b.md'' ''B'' ''<p>[A](a.md)</p>''
                      [Node ''/docs/a.md'' ''A'' ''<p>[B](b.md)</p>'' []]]),
                {''/docs/b.md'', ''/docs/a.md''})) \<and>
   fs_resolve fs_cycle ''/docs/a.md'' \<in> {''/docs/b.md'', ''/docs/a.md''} \<and>
   parse_md 1 example_lib fs_cycle ''/docs/a.md'' {''/docs/b.md'', ''/docs/a.md''} (Some ''A'') =
     Some (Inr (Some (Node ''/docs/a.md'' ''A'' ''<p>[B](b.md)</p>'' []),
                {''/docs/b.md'', ''/docs/a.md''}))"
proof -
  have full: "parse_md 3 example_lib fs_cycle ''/docs/a.md'' {} None =
     Some (Inr (Some (Node ''/docs/a.md'' ''a'' ''<p>[B](b.md)</p>''
                   [Node ''/docs/b.md'' ''B'' ''<p>[A](a.md)</p>''
                      [Node ''/docs/a.md'' ''A'' ''<p>[B](b.md)</p>'' []]]),
                {''/docs/b.md'', ''/docs/a.md''}))"
    by code_simp
  have h: "fs_resolve fs_cycle ''/docs/a.md'' \<in> {''/docs/b.md'', ''/docs/a.md''} \<and>
      read_file_text fs_cycle (fs_resolve fs_cycle ''/docs/a.md'') = Some ''[B](b.md)'' \<and>
      fm_get_title (fst (parse_frontmatter example_lib ''[B](b.md)'')) = Inr PyNone"
    by code_simp
  have v: "Node (fs_resolve fs_cycle ''/docs/a.md'')
             (node_title example_lib PyNone (Some ''A'') (fs_resolve fs_cycle ''/docs/a.md''))
             (markdown example_lib (snd (parse_frontmatter example_lib ''[B](b.md)''))) [] =
           Node ''/docs/a.md'' ''A'' ''<p>[B](b.md)</p>'' []"
    by code_simp
  from parse_md_terminates [where fs = fs_cycle and L = example_lib and ?path0.0 = "''/docs/a.md''"
      and seen = "{''/docs/b.md'', ''/docs/a.md''}" and link_text = "Some ''A''"
      and src = "''[B](b.md)''" and fm_title = PyNone and n = 0] h
  have "parse_md (Suc 0) example_lib fs_cycle ''/docs/a.md'' {''/docs/b.md'', ''/docs/a.md''} (Some ''A'') =
     Some (Inr (Some (Node (fs_resolve fs_cycle ''/docs/a.md'')
             (node_title example_lib PyNone (Some ''A'') (fs_resolve fs_cycle ''/docs/a.md''))
             (markdown example_lib (snd (parse_frontmatter example_lib ''[B](b.md)''))) []),
          {''/docs/b.md'', ''/docs/a.md''}))"
    by blast
  then have "parse_md 1 example_lib fs_cycle ''/docs/a.md'' {''/docs/b.md'', ''/docs/a.md''} (Some ''A'') =
     Some (Inr (Some (Node ''/docs/a.md'' ''A'' ''<p>[B](b.md)</p>'' []),
                {''/docs/b.md'', ''/docs/a.md''}))"
    unfolding v by simp
  with full h show ?thesis by blast
qed

subsection \<open>The labels that the walker passes\<close>

lemma match_link_nonempty: "match_link s = Some ((l, t), rest) \<Longrightarrow> l \<noteq> [] \<and> t \<noteq> []"
  by (cases s) (auto simp: match_link_def Let_def split: if_splits)

text \<open>The labels and the targets that \<open>extract_links\<close> yields are not empty, so the walker
  never passes an empty label to \<open>parse_md\<close>.\<close>

lemma extract_links_nonempty:
  "(l, t) \<in> set (extract_links s) \<Longrightarrow> l \<noteq> [] \<and> t \<noteq> []"
proof (induction s rule: extract_links.induct)
  case (1 s)
  show ?case
  proof (cases "s = []")
    case True
    with "1.prems" show ?thesis by (simp add: extract_links.simps [of s])
  next
    case False
    show ?thesis
    proof (cases "match_link s")
      case None
      with False "1.prems" have "(l, t) \<in> set (extract_links (tl s))"
        by (simp add: extract_links.simps [of s])
      from "1.IH"(1) [OF False None this] show ?thesis .
    next
      case (Some m)
      obtain lt rest where m: "m = (lt, rest)" by (cases m)
      with Some False "1.prems" have "(l, t) = lt \<or> (l, t) \<in> set (extract_links rest)"
        by (simp add: extract_links.simps [of s])
      then show ?thesis
      proof
        assume "(l, t) = lt"
        with Some m match_link_nonempty [of s l t rest] show ?thesis by simp
      next
        assume "(l, t) \<in> set (extract_links rest)"
        from "1.IH"(2) [OF False Some m [symmetric] this] show ?thesis .
      qed
    qed
  qed
qed

end
